theory Spec2Isabelle
  imports Complex_Main "HOL-Library.Sublist"
begin

section \<open>Conventions of the embedding\<close>

text \<open>
  The sources are \<open>performance/rate_limiter.py\<close> and \<open>session/session_manager.py\<close>.
  Python's \<open>float\<close> is modelled by \<^typ>\<open>real\<close> (exact arithmetic, no rounding, no
  infinities), Python's \<open>int\<close> by \<^typ>\<open>int\<close>, \<open>str\<close> by \<^typ>\<open>string\<close>. The conversion
  \<open>float(i)\<close> of an \<open>int\<close> is modelled as Python does it: see \<open>py_float\<close>.
  Every read of \<open>time.time()\<close> is an explicit argument \<open>now\<close>: within one call of a
  method the clock stands still, and only \<open>asyncio.sleep\<close> moves it.
  A raised exception is a value of \<open>py_error\<close>.
\<close>

datatype py_error = ZeroDivisionError | ValueError | KeyError | OverflowError | Exception string

section \<open>TokenBucket\<close>

record token_bucket =
  capacity :: real
  refill_rate :: real
  tokens :: real
  last_refill_time :: real

text \<open>\<open>TokenBucket(capacity, refill_rate)\<close> with \<open>__post_init__\<close>: the bucket starts full.\<close>

definition TokenBucket :: "real \<Rightarrow> real \<Rightarrow> real \<Rightarrow> token_bucket" where
  "TokenBucket cap rate now =
     \<lparr>capacity = cap, refill_rate = rate, tokens = cap, last_refill_time = now\<rparr>"

text \<open>\<open>TokenBucket._refill\<close>.\<close>

definition refill :: "token_bucket \<Rightarrow> real \<Rightarrow> token_bucket" where
  "refill b now =
     (let elapsed = now - last_refill_time b;
          tokens_to_add = elapsed * refill_rate b
      in b\<lparr>tokens := min (capacity b) (tokens b + tokens_to_add),
            last_refill_time := now\<rparr>)"

text \<open>\<open>TokenBucket.consume\<close>: the returned flag and the mutated bucket.\<close>

definition consume :: "token_bucket \<Rightarrow> real \<Rightarrow> real \<Rightarrow> bool \<times> token_bucket" where
  "consume b n now =
     (let b1 = refill b now
      in if tokens b1 \<ge> n then (True, b1\<lparr>tokens := tokens b1 - n\<rparr>)
         else (False, b1))"

text \<open>
  \<open>TokenBucket.get_wait_time\<close>. Python's float division raises \<open>ZeroDivisionError\<close> on
  a zero divisor; the refill has already happened by then.
\<close>

definition get_wait_time ::
    "token_bucket \<Rightarrow> real \<Rightarrow> real \<Rightarrow> (py_error + real) \<times> token_bucket" where
  "get_wait_time b n now =
     (let b1 = refill b now
      in if tokens b1 \<ge> n then (Inr 0, b1)
         else (let tokens_needed = n - tokens b1
               in if refill_rate b1 = 0 then (Inl ZeroDivisionError, b1)
                  else (Inr (tokens_needed / refill_rate b1), b1)))"

text \<open>\<open>TokenBucket.get_available_tokens\<close>.\<close>

definition get_available_tokens :: "token_bucket \<Rightarrow> real \<Rightarrow> real \<times> token_bucket" where
  "get_available_tokens b now = (let b1 = refill b now in (tokens b1, b1))"

text \<open>
  A client of the bucket: a sequence of public operations, each at its own clock reading.
  \<open>observe\<close> lists the bucket after every operation.
\<close>

datatype bucket_op = Consume real | GetWaitTime real | GetAvailableTokens

fun bucket_step :: "token_bucket \<Rightarrow> real \<times> bucket_op \<Rightarrow> token_bucket" where
  "bucket_step b (now, Consume n) = snd (consume b n now)"
| "bucket_step b (now, GetWaitTime n) = snd (get_wait_time b n now)"
| "bucket_step b (now, GetAvailableTokens) = snd (get_available_tokens b now)"

fun observe :: "token_bucket \<Rightarrow> (real \<times> bucket_op) list \<Rightarrow> token_bucket list" where
  "observe b [] = []"
| "observe b (x # xs) = bucket_step b x # observe (bucket_step b x) xs"

text \<open>Clock readings never go back: each is at least the one before, starting at \<open>t\<close>.\<close>

fun nondecreasing_from :: "real \<Rightarrow> real list \<Rightarrow> bool" where
  "nondecreasing_from t [] = True"
| "nondecreasing_from t (u # us) = (t \<le> u \<and> nondecreasing_from u us)"

text \<open>The amounts a sequence asks \<open>consume\<close> for.\<close>

fun consumed_amounts :: "(real \<times> bucket_op) list \<Rightarrow> real list" where
  "consumed_amounts [] = []"
| "consumed_amounts ((t, Consume n) # xs) = n # consumed_amounts xs"
| "consumed_amounts (x # xs) = consumed_amounts xs"

definition within_capacity :: "token_bucket \<Rightarrow> bool" where
  "within_capacity b = (0 \<le> tokens b \<and> tokens b \<le> capacity b)"


section \<open>RateLimitConfig and RateLimiter\<close>

record rate_limit_config =
  requests_per_minute :: int
  tokens_per_minute :: int
  max_concurrent_requests :: int
  refill_rate_rpm :: real
  refill_rate_tpm :: real

text \<open>The dataclass constructor with \<open>__post_init__\<close>, which derives the refill rates.\<close>

definition RateLimitConfig :: "int \<Rightarrow> int \<Rightarrow> int \<Rightarrow> rate_limit_config" where
  "RateLimitConfig rpm tpm mc =
     \<lparr>requests_per_minute = rpm, tokens_per_minute = tpm, max_concurrent_requests = mc,
      refill_rate_rpm = real_of_int rpm / 60, refill_rate_tpm = real_of_int tpm / 60\<rparr>"

text \<open>
  The limiter. \<open>semaphore\<close> is the \<open>_value\<close> of the \<open>asyncio.Semaphore\<close>: the number
  of free concurrency slots. The \<open>asyncio.Lock\<close> is free whenever a method is entered in
  this sequential model, and is released on every way out, so it carries no state here.
\<close>

record rate_limiter =
  name :: string
  config :: rate_limit_config
  rpm_bucket :: token_bucket
  tpm_bucket :: token_bucket
  semaphore :: int
  total_requests :: int
  total_tokens_consumed :: int
  total_wait_time :: real
  requests_throttled :: int

text \<open>
  \<open>RateLimiter.__init__\<close>. \<open>config or RateLimitConfig()\<close> takes the defaults when no
  configuration is given; \<open>asyncio.Semaphore\<close> raises \<open>ValueError\<close> on a negative value.
\<close>

definition RateLimiter ::
    "string \<Rightarrow> rate_limit_config option \<Rightarrow> real \<Rightarrow> py_error + rate_limiter" where
  "RateLimiter nm cfg now =
     (let c = (case cfg of None \<Rightarrow> RateLimitConfig 500 30000 10 | Some c' \<Rightarrow> c')
      in if max_concurrent_requests c < 0 then Inl ValueError
         else Inr \<lparr>name = nm, config = c,
                   rpm_bucket = TokenBucket (real_of_int (requests_per_minute c)) (refill_rate_rpm c) now,
                   tpm_bucket = TokenBucket (real_of_int (tokens_per_minute c)) (refill_rate_tpm c) now,
                   semaphore = max_concurrent_requests c,
                   total_requests = 0, total_tokens_consumed = 0,
                   total_wait_time = 0, requests_throttled = 0\<rparr>)"

text \<open>
  The arguments of \<open>logger.warning\<close> and \<open>logger.debug\<close> are evaluated before the call:
  both read \<open>get_available_tokens\<close> of both buckets, which refills them.
\<close>

definition log_available :: "rate_limiter \<Rightarrow> real \<Rightarrow> rate_limiter" where
  "log_available g now =
     g\<lparr>rpm_bucket := snd (get_available_tokens (rpm_bucket g) now),
       tpm_bucket := snd (get_available_tokens (tpm_bucket g) now)\<rparr>"

text \<open>
  The branch \<open>if wait_time > 0\<close> of \<open>_wait_for_capacity\<close>: the statistics, the warning,
  and \<open>asyncio.sleep(wait_time)\<close>. The result is the limiter, the duration slept (if any)
  and the clock after it: \<open>late\<close> is how much later than asked the scheduler resumes
  the task.
\<close>

definition throttle ::
    "rate_limiter \<Rightarrow> real \<Rightarrow> real \<Rightarrow> real \<Rightarrow> rate_limiter \<times> real option \<times> real" where
  "throttle g wait_time now late =
     (if wait_time > 0
      then (log_available
              (g\<lparr>requests_throttled := requests_throttled g + 1,
                 total_wait_time := total_wait_time g + wait_time\<rparr>) now,
            Some wait_time, now + wait_time + late)
      else (g, None, now))"

text \<open>
  \<open>float(i)\<close> for an \<open>int\<close>: the nearest double, ties to the even mantissa, and
  \<open>OverflowError\<close> when that is \<open>2 ^ 1024\<close> or more. \<open>bit_length\<close> is \<open>int.bit_length\<close>;
  an integer of at most 53 bits converts exactly.
\<close>

fun bit_length :: "nat \<Rightarrow> nat" where
  "bit_length n = (if n = 0 then 0 else Suc (bit_length (n div 2)))"

definition py_float :: "int \<Rightarrow> py_error + real" where
  "py_float i =
     (let a = nat \<bar>i\<bar>; k = bit_length a
      in if k \<le> 53 then Inr (real_of_int i)
         else (let e = k - 53; q = a div 2 ^ e; r = a mod 2 ^ e; h = 2 ^ (e - 1);
                   q' = (if h < r \<or> (r = h \<and> odd q) then q + 1 else q);
                   m = q' * 2 ^ e
               in if 2 ^ 1024 \<le> m then Inl OverflowError
                  else Inr (if i < 0 then - real m else real m)))"

text \<open>The tail of \<open>_wait_for_capacity\<close>: both \<open>consume\<close> calls, whose results are dropped,
  the statistics and the debug record. The argument \<open>float(estimated_tokens)\<close> is
  evaluated before the second \<open>consume\<close>.\<close>

definition take_tokens ::
    "rate_limiter \<Rightarrow> int \<Rightarrow> real \<Rightarrow> (py_error + unit) \<times> rate_limiter" where
  "take_tokens g estimated_tokens now =
     (let g1 = g\<lparr>rpm_bucket := snd (consume (rpm_bucket g) 1 now)\<rparr>
      in case py_float estimated_tokens of
           Inl e \<Rightarrow> (Inl e, g1)
         | Inr x \<Rightarrow>
             (let g2 = g1\<lparr>tpm_bucket := snd (consume (tpm_bucket g1) x now)\<rparr>;
                  g3 = g2\<lparr>total_requests := total_requests g2 + 1,
                          total_tokens_consumed := total_tokens_consumed g2 + estimated_tokens\<rparr>
              in (Inr (), log_available g3 now)))"

text \<open>
  \<open>RateLimiter._wait_for_capacity\<close>. The first component is the exception raised, or the
  duration the caller was suspended for (\<open>None\<close>: it was not suspended). The argument
  \<open>float(estimated_tokens)\<close> is evaluated after the rate bucket's wait and before the
  weight bucket's.
\<close>

definition wait_for_capacity ::
    "rate_limiter \<Rightarrow> int \<Rightarrow> real \<Rightarrow> real \<Rightarrow> (py_error + real option) \<times> rate_limiter" where
  "wait_for_capacity g estimated_tokens now late =
     (case get_wait_time (rpm_bucket g) 1 now of
        (Inl e, rb) \<Rightarrow> (Inl e, g\<lparr>rpm_bucket := rb\<rparr>)
      | (Inr rpm_wait, rb) \<Rightarrow>
          (let g1 = g\<lparr>rpm_bucket := rb\<rparr> in
           case py_float estimated_tokens of
             Inl e \<Rightarrow> (Inl e, g1)
           | Inr x \<Rightarrow>
               (case get_wait_time (tpm_bucket g1) x now of
                  (Inl e, tb) \<Rightarrow> (Inl e, g1\<lparr>tpm_bucket := tb\<rparr>)
                | (Inr tpm_wait, tb) \<Rightarrow>
                    (let g2 = g1\<lparr>tpm_bucket := tb\<rparr>;
                         wait_time = max rpm_wait tpm_wait;
                         (g3, slept, now') = throttle g2 wait_time now late
                     in case take_tokens g3 estimated_tokens now' of
                          (Inl e, g4) \<Rightarrow> (Inl e, g4)
                        | (Inr u, g4) \<Rightarrow> (Inr slept, g4)))))"

text \<open>
  \<open>RateLimiterContext.__aenter__\<close>. \<open>semaphore.acquire()\<close> takes a slot when one is free;
  otherwise the task waits for another task's \<open>release\<close>, which this sequential model
  shows as the outcome \<open>WaitingForSlot\<close>.
\<close>

datatype enter_outcome = Entered "real option" | EnterRaised py_error | WaitingForSlot "real option"

definition aenter ::
    "rate_limiter \<Rightarrow> int \<Rightarrow> real \<Rightarrow> real \<Rightarrow> enter_outcome \<times> rate_limiter" where
  "aenter g estimated_tokens now late =
     (case wait_for_capacity g estimated_tokens now late of
        (Inl e, g1) \<Rightarrow> (EnterRaised e, g1)
      | (Inr slept, g1) \<Rightarrow>
          (if semaphore g1 \<noteq> 0 then (Entered slept, g1\<lparr>semaphore := semaphore g1 - 1\<rparr>)
           else (WaitingForSlot slept, g1)))"

text \<open>\<open>RateLimiterContext.__aexit__\<close>: \<open>exc\<close> is the exception of the guarded body, if any.
  The returned \<open>False\<close> tells Python not to swallow it.\<close>

definition aexit :: "rate_limiter \<Rightarrow> 'e option \<Rightarrow> bool \<times> rate_limiter" where
  "aexit g exc = (False, g\<lparr>semaphore := semaphore g + 1\<rparr>)"

text \<open>
  \<open>async with limiter.acquire(estimated_tokens): body\<close>, by Python's protocol: the body
  runs only after \<open>__aenter__\<close> returned; \<open>__aexit__\<close> runs on both ways out of the body
  and its exception goes on to the caller unless \<open>__aexit__\<close> returns true. The body is any
  code: it gets the limiter and returns it with its result or its exception.
\<close>

datatype ('e, 'r) scope_outcome =
  BodyReturned 'r | BodyRaised 'e | Swallowed | NotEntered enter_outcome

definition async_with ::
    "rate_limiter \<Rightarrow> int \<Rightarrow> real \<Rightarrow> real \<Rightarrow> (rate_limiter \<Rightarrow> ('e + 'r) \<times> rate_limiter)
       \<Rightarrow> ('e, 'r) scope_outcome \<times> rate_limiter" where
  "async_with g estimated_tokens now late body =
     (case aenter g estimated_tokens now late of
        (Entered slept, g1) \<Rightarrow>
          (case body g1 of
             (Inr r, g2) \<Rightarrow> (BodyReturned r, snd (aexit g2 (None :: 'e option)))
           | (Inl e, g2) \<Rightarrow>
               (case aexit g2 (Some e) of
                  (True, g3) \<Rightarrow> (Swallowed, g3)
                | (False, g3) \<Rightarrow> (BodyRaised e, g3)))
      | (out, g1) \<Rightarrow> (NotEntered out, g1))"

section \<open>The registry of limiters\<close>

text \<open>
  \<open>str.lower\<close> on ASCII: the letters A to Z go to a to z, every other character stays.
  (Names with letters outside ASCII are outside this model.)
\<close>

definition lower_char :: "char \<Rightarrow> char" where
  "lower_char c =
     (let n = (of_char c :: nat) in if 65 \<le> n \<and> n \<le> 90 then char_of (n + 32) else c)"

definition lower :: "string \<Rightarrow> string" where
  "lower s = map lower_char s"

text \<open>
  The module-level dictionary \<open>_rate_limiters\<close> holds references: \<open>heap\<close> is the store of
  limiter objects, an address is an index into it, and the dictionary maps a model name
  to the address of its limiter. Two results are the identical instance when they are the
  same address.
\<close>

record registry =
  heap :: "rate_limiter list"
  rate_limiters :: "string \<Rightarrow> nat option"

text \<open>\<open>get_rate_limiter\<close>: the address returned (or the exception) and the registry.\<close>

definition get_rate_limiter :: "registry \<Rightarrow> string \<Rightarrow> real \<Rightarrow> (py_error + nat) \<times> registry" where
  "get_rate_limiter w model now =
     (case rate_limiters w model of
        Some a \<Rightarrow> (Inr a, w)
      | None \<Rightarrow>
          (let cfg = (if sublist ''mini'' (lower model)
                      then RateLimitConfig 500 200000 10
                      else RateLimitConfig 500 30000 10)
           in case RateLimiter (''openai_'' @ model) (Some cfg) now of
                Inl e \<Rightarrow> (Inl e, w)
              | Inr l \<Rightarrow>
                  (let a = length (heap w)
                   in (Inr a, w\<lparr>heap := heap w @ [l],
                                 rate_limiters := (rate_limiters w)(model \<mapsto> a)\<rparr>))))"

text \<open>Any further lookups, each a model name with its clock reading, one after another.\<close>

fun lookups :: "registry \<Rightarrow> (string \<times> real) list \<Rightarrow> registry" where
  "lookups w [] = w"
| "lookups w ((model, now) # rest) = lookups (snd (get_rate_limiter w model now)) rest"

text \<open>The limiter of the unit test \<open>test_acquire_with_wait\<close> once its rate bucket has been
  drained: 60 requests and 6000 tokens a minute.\<close>

definition test_limiter :: rate_limiter where
  "test_limiter =
     \<lparr>name = ''test'', config = RateLimitConfig 60 6000 10,
      rpm_bucket = \<lparr>capacity = 60, refill_rate = 1, tokens = 0, last_refill_time = 0\<rparr>,
      tpm_bucket = \<lparr>capacity = 6000, refill_rate = 100, tokens = 6000, last_refill_time = 0\<rparr>,
      semaphore = 10, total_requests = 0, total_tokens_consumed = 0,
      total_wait_time = 0, requests_throttled = 0\<rparr>"

text \<open>A guarded body that raises and leaves the limiter alone.\<close>

definition failing_body :: "rate_limiter \<Rightarrow> (string + unit) \<times> rate_limiter" where
  "failing_body g = (Inl ''API unavailable'', g)"

text \<open>The module as loaded: \<open>_rate_limiters = {}\<close> and no limiter object yet.\<close>

definition empty_registry :: registry where
  "empty_registry = \<lparr>heap = [], rate_limiters = Map.empty\<rparr>"

section \<open>SessionManager\<close>

text \<open>
  \<open>SQLiteSession\<close> belongs to the agents SDK, outside this repository: a handle is its
  constructor arguments, and what its \<open>clear_session\<close> and \<open>close\<close> do is a parameter of
  the model (\<open>handle_env\<close>): for each handle, the exception \<open>clear_session\<close> raises (if
  any), whether the handle has a \<open>close\<close> method, and the exception \<open>close\<close> raises (if
  any). Every value of \<open>py_error\<close> is an instance of Python's \<open>Exception\<close>.
\<close>

record sqlite_session =
  session_id :: string
  db_path :: string

record handle_env =
  clear_session_raises :: "sqlite_session \<Rightarrow> py_error option"
  has_close :: "sqlite_session \<Rightarrow> bool"
  close_raises :: "sqlite_session \<Rightarrow> py_error option"

record session_metadata =
  session :: sqlite_session
  created_at :: real
  last_accessed :: real
  access_count :: int

text \<open>\<open>SessionMetadata.update_access\<close>.\<close>

definition update_access :: "session_metadata \<Rightarrow> real \<Rightarrow> session_metadata" where
  "update_access md now = md\<lparr>last_accessed := now, access_count := access_count md + 1\<rparr>"

text \<open>
  What the manager does to the world outside it, in order: the calls on handles and the
  two log records of \<open>_close_session\<close> (\<open>Session closed\<close> and \<open>Failed to close session\<close>
  with \<open>str(e)\<close>).
\<close>

datatype event =
  ClearSessionCalled string | CloseCalled string
  | LoggedClosed string | LoggedCloseFailed string string

text \<open>
  The manager. \<open>sessions\<close> is the \<open>OrderedDict\<close>: the keys with their metadata in the
  dictionary's order, the least recently used first. The five counters are the \<open>stats\<close>
  dictionary. The \<open>asyncio.Lock\<close> carries no state in this sequential model.
\<close>

record session_manager =
  manager_db_path :: string
  max_sessions :: int
  session_ttl :: real
  cleanup_interval :: real
  sessions :: "(string \<times> session_metadata) list"
  running :: bool
  sessions_created :: int
  sessions_evicted :: int
  sessions_expired :: int
  cache_hits :: int
  cache_misses :: int
  events :: "event list"

text \<open>\<open>SessionManager.__init__\<close>.\<close>

definition SessionManager :: "string \<Rightarrow> int \<Rightarrow> real \<Rightarrow> real \<Rightarrow> session_manager" where
  "SessionManager path max_s ttl interval =
     \<lparr>manager_db_path = path, max_sessions = max_s, session_ttl = ttl,
      cleanup_interval = interval, sessions = [], running = False,
      sessions_created = 0, sessions_evicted = 0, sessions_expired = 0,
      cache_hits = 0, cache_misses = 0, events = []\<rparr>"

text \<open>The dictionary operations the manager uses: \<open>pop(key)\<close> raises \<open>KeyError\<close> on a
  missing key.\<close>

definition without_key :: "string \<Rightarrow> (string \<times> 'v) list \<Rightarrow> (string \<times> 'v) list" where
  "without_key k xs = filter (\<lambda>(k', v). k' \<noteq> k) xs"

definition dict_pop :: "string \<Rightarrow> (string \<times> 'v) list \<Rightarrow> py_error + ('v \<times> (string \<times> 'v) list)" where
  "dict_pop k xs =
     (case map_of xs k of None \<Rightarrow> Inl KeyError | Some v \<Rightarrow> Inr (v, without_key k xs))"

text \<open>\<open>str(e)\<close> for the log record.\<close>

fun error_str :: "py_error \<Rightarrow> string" where
  "error_str (Exception msg) = msg"
| "error_str ZeroDivisionError = ''float division by zero''"
| "error_str ValueError = ''ValueError''"
| "error_str KeyError = ''KeyError''"
| "error_str OverflowError = ''OverflowError''"

definition log_event :: "session_manager \<Rightarrow> event \<Rightarrow> session_manager" where
  "log_event m e = m\<lparr>events := events m @ [e]\<rparr>"

text \<open>The \<open>try\<close> block of \<open>_close_session\<close> up to its log record: an exception of
  \<open>clear_session\<close> or of \<open>close\<close> leaves the block at once.\<close>

definition teardown ::
    "handle_env \<Rightarrow> session_manager \<Rightarrow> string \<Rightarrow> session_metadata
       \<Rightarrow> (py_error + unit) \<times> session_manager" where
  "teardown env m sid md =
     (let m1 = log_event m (ClearSessionCalled sid)
      in case clear_session_raises env (session md) of
           Some e \<Rightarrow> (Inl e, m1)
         | None \<Rightarrow>
             (if has_close env (session md)
              then (let m2 = log_event m1 (CloseCalled sid)
                    in case close_raises env (session md) of
                         Some e \<Rightarrow> (Inl e, m2)
                       | None \<Rightarrow> (Inr (), m2))
              else (Inr (), m1)))"

text \<open>\<open>SessionManager._close_session\<close>: \<open>except Exception as e\<close> catches what the \<open>try\<close>
  block raised and logs it.\<close>

definition close_session ::
    "handle_env \<Rightarrow> session_manager \<Rightarrow> string \<Rightarrow> session_metadata
       \<Rightarrow> (py_error + unit) \<times> session_manager" where
  "close_session env m sid md =
     (case teardown env m sid md of
        (Inr u, m1) \<Rightarrow> (Inr (), log_event m1 (LoggedClosed sid))
      | (Inl e, m1) \<Rightarrow> (Inr (), log_event m1 (LoggedCloseFailed sid (error_str e))))"

text \<open>\<open>SessionManager._evict_oldest_session\<close>: \<open>popitem(last=False)\<close> takes the first
  entry of the dictionary.\<close>

definition evict_oldest_session ::
    "handle_env \<Rightarrow> session_manager \<Rightarrow> (py_error + unit) \<times> session_manager" where
  "evict_oldest_session env m =
     (case sessions m of
        [] \<Rightarrow> (Inr (), m)
      | (sid, md) # rest \<Rightarrow>
          (case close_session env (m\<lparr>sessions := rest\<rparr>) sid md of
             (Inl e, m1) \<Rightarrow> (Inl e, m1)
           | (Inr u, m1) \<Rightarrow> (Inr (), m1\<lparr>sessions_evicted := sessions_evicted m1 + 1\<rparr>)))"

text \<open>\<open>SessionManager.get_session\<close>. The constructor of the handle only records its
  arguments. The clock is read once for each call: \<open>created_at\<close> and \<open>last_accessed\<close> of a
  new entry, two calls of \<open>time.time()\<close> one after the other, are the same reading.\<close>

definition get_session ::
    "handle_env \<Rightarrow> session_manager \<Rightarrow> string \<Rightarrow> real
       \<Rightarrow> (py_error + sqlite_session) \<times> session_manager" where
  "get_session env m sid now =
     (case map_of (sessions m) sid of
        Some md \<Rightarrow>
          (let md' = update_access md now
           in (Inr (session md'),
               m\<lparr>sessions := without_key sid (sessions m) @ [(sid, md')],
                 cache_hits := cache_hits m + 1\<rparr>))
      | None \<Rightarrow>
          (let m1 = m\<lparr>cache_misses := cache_misses m + 1\<rparr>;
               (r, m2) = (if int (length (sessions m1)) \<ge> max_sessions m1
                          then evict_oldest_session env m1 else (Inr (), m1))
           in case r of
                Inl e \<Rightarrow> (Inl e, m2)
              | Inr u \<Rightarrow>
                  (let s = \<lparr>session_id = sid, db_path = manager_db_path m2\<rparr>;
                       md = \<lparr>session = s, created_at = now, last_accessed = now, access_count = 1\<rparr>
                   in (Inr s, m2\<lparr>sessions := sessions m2 @ [(sid, md)],
                                sessions_created := sessions_created m2 + 1\<rparr>))))"

text \<open>\<open>SessionManager.remove_session\<close>.\<close>

definition remove_session ::
    "handle_env \<Rightarrow> session_manager \<Rightarrow> string \<Rightarrow> (py_error + unit) \<times> session_manager" where
  "remove_session env m sid =
     (if sid \<in> fst ` set (sessions m)
      then (case dict_pop sid (sessions m) of
              Inl e \<Rightarrow> (Inl e, m)
            | Inr (md, rest) \<Rightarrow> close_session env (m\<lparr>sessions := rest\<rparr>) sid md)
      else (Inr (), m))"

text \<open>\<open>SessionManager.cleanup_expired_sessions\<close>: the age the first loop computes, the
  keys it collects, and the second loop over them.\<close>

definition age :: "real \<Rightarrow> session_metadata \<Rightarrow> real" where
  "age now md = now - last_accessed md"

definition expired_sessions :: "session_manager \<Rightarrow> real \<Rightarrow> string list" where
  "expired_sessions m now =
     map fst (filter (\<lambda>(sid, md). age now md > session_ttl m) (sessions m))"

fun remove_expired ::
    "handle_env \<Rightarrow> session_manager \<Rightarrow> string list \<Rightarrow> (py_error + unit) \<times> session_manager" where
  "remove_expired env m [] = (Inr (), m)"
| "remove_expired env m (sid # rest) =
     (case dict_pop sid (sessions m) of
        Inl e \<Rightarrow> (Inl e, m)
      | Inr (md, remaining) \<Rightarrow>
          (case close_session env (m\<lparr>sessions := remaining\<rparr>) sid md of
             (Inl e, m1) \<Rightarrow> (Inl e, m1)
           | (Inr u, m1) \<Rightarrow>
               remove_expired env (m1\<lparr>sessions_expired := sessions_expired m1 + 1\<rparr>) rest))"

definition cleanup_expired_sessions ::
    "handle_env \<Rightarrow> session_manager \<Rightarrow> real \<Rightarrow> (py_error + int) \<times> session_manager" where
  "cleanup_expired_sessions env m now =
     (let expired = expired_sessions m now
      in case remove_expired env m expired of
           (Inl e, m1) \<Rightarrow> (Inl e, m1)
         | (Inr u, m1) \<Rightarrow> (Inr (int (length expired)), m1))"



text \<open>A client of the pool: operations one after another, each at its clock reading. A
  raised exception would end the run with the manager as it was left.\<close>

datatype pool_op = GetSession string | RemoveSession string | Cleanup

fun pool_step :: "handle_env \<Rightarrow> session_manager \<Rightarrow> real \<times> pool_op \<Rightarrow> session_manager" where
  "pool_step env m (now, GetSession sid) = snd (get_session env m sid now)"
| "pool_step env m (now, RemoveSession sid) = snd (remove_session env m sid)"
| "pool_step env m (now, Cleanup) = snd (cleanup_expired_sessions env m now)"

fun pool_run :: "handle_env \<Rightarrow> session_manager \<Rightarrow> (real \<times> pool_op) list \<Rightarrow> session_manager" where
  "pool_run env m [] = m"
| "pool_run env m (x # xs) = pool_run env (pool_step env m x) xs"

text \<open>Handles of the SDK as they are: \<open>clear_session\<close> and \<open>close\<close> succeed; and handles
  whose \<open>close\<close> fails.\<close>

definition sdk_handles :: handle_env where
  "sdk_handles = \<lparr>clear_session_raises = (\<lambda>s. None), has_close = (\<lambda>s. True),
                  close_raises = (\<lambda>s. None)\<rparr>"


text \<open>What one \<open>_close_session\<close> of a handle adds to the events: its calls on the handle
  and its log record.\<close>

definition close_events :: "handle_env \<Rightarrow> string \<Rightarrow> session_metadata \<Rightarrow> event list" where
  "close_events env sid md = events (snd (close_session env (SessionManager [] 0 0 0) sid md))"

text \<open>The pool of the unit tests (at most 5 sessions, 2 seconds to live) after \<open>user-1\<close> was
  created at time 0 and \<open>user-2\<close> at time 1.\<close>

definition two_sessions :: session_manager where
  "two_sessions =
     pool_run sdk_handles (SessionManager ''data/sessions.db'' 5 2 1)
       [(0, GetSession ''user-1''), (1, GetSession ''user-2'')]"

text \<open>The entry \<open>get_session\<close> stores for a key that is not in the pool: the new handle
  and its \<open>SessionMetadata\<close>.\<close>

definition new_entry :: "string \<Rightarrow> string \<Rightarrow> real \<Rightarrow> string \<times> session_metadata" where
  "new_entry path sid now =
     (sid, \<lparr>session = \<lparr>session_id = sid, db_path = path\<rparr>,
            created_at = now, last_accessed = now, access_count = 1\<rparr>)"

text \<open>The manager of the unit tests, and what \<open>test_session_access_updates_lru\<close> and
  \<open>test_session_lru_eviction\<close> ask of it, one second apart.\<close>

definition test_pool :: session_manager where
  "test_pool = SessionManager ''data/sessions.db'' 5 2 1"

definition access_updates_lru :: "(real \<times> pool_op) list" where
  "access_updates_lru =
     [(0, GetSession ''user-1''), (1, GetSession ''user-2''), (2, GetSession ''user-3''),
      (3, GetSession ''user-1''), (4, GetSession ''user-4''), (5, GetSession ''user-5'')]"

definition lru_eviction_keys :: "string list" where
  "lru_eviction_keys = [''user-0'', ''user-1'', ''user-2'', ''user-3'', ''user-4'', ''user-new'']"

section \<open>CircuitBreaker\<close>

text \<open>
  Modelled from the spec: the module \<open>performance/circuit_breaker.py\<close> is not among the
  sources, only its unit tests are. The breaker below is the CallBreaker of the
  specification (its data model and section 4.1), under the names the unit tests use
  for the class, its configuration and its attributes; a field that shares its name with
  a field of the limiter carries the suffix \<open>_cb\<close>.
\<close>











text \<open>The caller's invocation counter: the operation wrapped so that each invocation
  adds one to a counter kept beside the world.\<close>

definition counted :: "('w \<Rightarrow> ('e + 'r) \<times> 'w) \<Rightarrow> nat \<times> 'w \<Rightarrow> ('e + 'r) \<times> (nat \<times> 'w)" where
  "counted operation = (\<lambda>(n, w). case operation w of (r, w') \<Rightarrow> (r, (Suc n, w')))"



definition fails :: "('w \<Rightarrow> ('e + 'r) \<times> 'w) \<Rightarrow> bool" where
  "fails operation = (\<forall>w. isl (fst (operation w)))"




section \<open>Facts about the token bucket\<close>

lemma refill_fields:
  "capacity (refill b now) = capacity b"
  "refill_rate (refill b now) = refill_rate b"
  "last_refill_time (refill b now) = now"
  "tokens (refill b now) = min (capacity b) (tokens b + (now - last_refill_time b) * refill_rate b)"
  by (simp_all add: refill_def Let_def)

lemma refill_within_capacity:
  assumes "within_capacity b" "0 \<le> refill_rate b" "last_refill_time b \<le> now"
  shows "within_capacity (refill b now)"
proof -
  have "0 \<le> (now - last_refill_time b) * refill_rate b"
    using assms by simp
  then show ?thesis
    using assms(1) by (simp add: within_capacity_def refill_fields min_def)
qed

lemma bucket_step_frame:
  "capacity (bucket_step b x) = capacity b"
  "refill_rate (bucket_step b x) = refill_rate b"
  "last_refill_time (bucket_step b x) = fst x"
  by (cases x; cases "snd x";
      simp add: consume_def get_wait_time_def get_available_tokens_def Let_def refill_fields)+

lemma bucket_step_within_capacity:
  assumes "within_capacity b" "0 \<le> refill_rate b" "last_refill_time b \<le> fst x"
    and "\<forall>n \<in> set (consumed_amounts [x]). 0 \<le> n"
  shows "within_capacity (bucket_step b x)"
proof -
  obtain now opn where x: "x = (now, opn)" by (cases x)
  have r: "within_capacity (refill b now)"
    using assms(1-3) x by (simp add: refill_within_capacity)
  show ?thesis
  proof (cases opn)
    case (Consume n)
    then have "0 \<le> n" using assms(4) x by simp
    then show ?thesis
      using r x Consume by (auto simp: consume_def Let_def within_capacity_def refill_fields)
  next
    case (GetWaitTime n)
    then show ?thesis
      using r x by (simp add: get_wait_time_def Let_def)
  next
    case GetAvailableTokens
    then show ?thesis
      using r x by (simp add: get_available_tokens_def Let_def)
  qed
qed

lemma consumed_amounts_Cons:
  "set (consumed_amounts (x # xs)) = set (consumed_amounts [x]) \<union> set (consumed_amounts xs)"
  by (cases x; cases "snd x") auto

lemma observe_within_capacity:
  assumes "within_capacity b" "0 \<le> refill_rate b"
    and "nondecreasing_from (last_refill_time b) (map fst ops)"
    and "\<forall>n \<in> set (consumed_amounts ops). 0 \<le> n"
  shows "\<forall>b' \<in> set (observe b ops). within_capacity b' \<and> capacity b' = capacity b"
  using assms
proof (induction ops arbitrary: b)
  case Nil
  then show ?case by simp
next
  case (Cons x xs)
  let ?b1 = "bucket_step b x"
  have amounts: "\<forall>n \<in> set (consumed_amounts [x]). 0 \<le> n"
    "\<forall>n \<in> set (consumed_amounts xs). 0 \<le> n"
    using Cons.prems(4) consumed_amounts_Cons[of x xs] by auto
  have le: "last_refill_time b \<le> fst x" and rest: "nondecreasing_from (fst x) (map fst xs)"
    using Cons.prems(3) by simp_all
  have w1: "within_capacity ?b1"
    using bucket_step_within_capacity[OF Cons.prems(1,2) le amounts(1)] .
  have "\<forall>b' \<in> set (observe ?b1 xs). within_capacity b' \<and> capacity b' = capacity ?b1"
    using Cons.IH[of ?b1] w1 Cons.prems(2) rest amounts(2)
    by (simp add: bucket_step_frame)
  then show ?case
    using w1 by (simp add: bucket_step_frame)
qed

section \<open>C3: the bucket stays between empty and full\<close>

text \<open>
  Claim C3, as stated, quantifies over every sequence of operations. It fails for a
  \<open>consume\<close> of a negative amount: \<open>self.tokens >= tokens\<close> holds and \<open>self.tokens -= tokens\<close>
  adds to the bucket. A full bucket of capacity 10 holds 15 tokens after \<open>consume(-5)\<close>.
\<close>

theorem negative_consume_overfills:
  "(0::real) \<le> 10 \<and> (0::real) < 1 \<and>
   nondecreasing_from 0 (map fst [(0, Consume (- 5))]) \<and>
   map tokens (observe (TokenBucket 10 1 0) [(0, Consume (- 5))]) = [15] \<and>
   \<not> (15::real) \<le> capacity (TokenBucket 10 1 0)"
  by (simp add: consume_def refill_def TokenBucket_def Let_def)

text \<open>
  Claim C3, amended. For every bucket created with capacity \<open>C \<ge> 0\<close> and refill rate
  \<open>R > 0\<close> at time \<open>t0\<close>, and every sequence of \<open>consume\<close>, \<open>get_wait_time\<close> and
  \<open>get_available_tokens\<close> calls at clock readings that never go back, in which no \<open>consume\<close>
  asks for a negative amount: \<open>0 \<le> tokens \<le> C\<close> after every operation. The refill is
  lazy: it is the assignment \<open>tokens = min(C, tokens + elapsed * R)\<close> with
  \<open>last_refill_time = now\<close>, and each operation leaves the bucket as that refill at its
  own clock reading (less what \<open>consume\<close> took); nothing else changes a bucket.
\<close>

theorem bucket_tokens_within_capacity:
  assumes "0 \<le> C" "0 < R"
    and "nondecreasing_from t0 (map fst ops)"
    and "\<forall>n \<in> set (consumed_amounts ops). 0 \<le> n"
  shows "(\<forall>b \<in> set (observe (TokenBucket C R t0) ops). 0 \<le> tokens b \<and> tokens b \<le> C) \<and>
         (\<forall>b now. refill b now =
            b\<lparr>tokens := min (capacity b) (tokens b + (now - last_refill_time b) * refill_rate b),
              last_refill_time := now\<rparr>) \<and>
         (\<forall>b now n. snd (get_wait_time b n now) = refill b now \<and>
                    snd (get_available_tokens b now) = refill b now \<and>
                    snd (consume b n now) =
                      (refill b now)\<lparr>tokens := tokens (refill b now) -
                          (if n \<le> tokens (refill b now) then n else 0)\<rparr>)"
proof -
  let ?b = "TokenBucket C R t0"
  have "within_capacity ?b" "0 \<le> refill_rate ?b" "last_refill_time ?b = t0" "capacity ?b = C"
    using assms(1,2) by (simp_all add: within_capacity_def TokenBucket_def)
  then have "\<forall>b' \<in> set (observe ?b ops). within_capacity b' \<and> capacity b' = C"
    using observe_within_capacity[of ?b ops] assms(3,4) by simp
  then have 1: "\<forall>b \<in> set (observe ?b ops). 0 \<le> tokens b \<and> tokens b \<le> C"
    by (auto simp: within_capacity_def)
  have 2: "\<forall>b now. refill b now =
            b\<lparr>tokens := min (capacity b) (tokens b + (now - last_refill_time b) * refill_rate b),
              last_refill_time := now\<rparr>"
    by (simp add: refill_def Let_def)
  have 3: "\<forall>b now n. snd (get_wait_time b n now) = refill b now \<and>
                    snd (get_available_tokens b now) = refill b now \<and>
                    snd (consume b n now) =
                      (refill b now)\<lparr>tokens := tokens (refill b now) -
                          (if n \<le> tokens (refill b now) then n else 0)\<rparr>"
    by (simp add: get_wait_time_def get_available_tokens_def consume_def Let_def)
  from 1 2 3 show ?thesis by blast
qed

text \<open>A run of four operations on the bucket of the unit tests (capacity 100, 10 tokens a
  second): drained, then refilled lazily at each later access.\<close>

theorem bucket_tokens_within_capacity_witness:
  "map tokens (observe (TokenBucket 100 10 0)
      [(0, Consume 100), (1, GetAvailableTokens), (3/2, GetWaitTime 20), (20, Consume 30)])
     = [0, 10, 15, 70] \<and>
   refill \<lparr>capacity = 100, refill_rate = 10, tokens = 0, last_refill_time = 0\<rparr> 1 =
     \<lparr>capacity = 100, refill_rate = 10, tokens = 10, last_refill_time = 1\<rparr>"
proof -
  let ?ops = "[(0::real, Consume 100), (1, GetAvailableTokens), (3/2, GetWaitTime 20), (20, Consume 30)]"
  have t: "nondecreasing_from 0 (map fst ?ops)" by simp
  have a: "\<forall>n \<in> set (consumed_amounts ?ops). 0 \<le> n" by simp
  have "(0::real) \<le> 100" "(0::real) < 10" by simp_all
  note inst = bucket_tokens_within_capacity[OF this t a]
  show ?thesis
    using inst
    by (simp add: consume_def get_wait_time_def get_available_tokens_def refill_def
        TokenBucket_def Let_def)
qed

section \<open>Facts about the wait for capacity\<close>

declare bit_length.simps [simp del]

lemma bit_length_le: "n < 2 ^ k \<Longrightarrow> bit_length n \<le> k"
proof (induction n arbitrary: k rule: bit_length.induct)
  case (1 n)
  show ?case
  proof (cases "n = 0")
    case True
    then show ?thesis by (simp add: bit_length.simps)
  next
    case False
    then obtain k' where k: "k = Suc k'" using "1.prems" by (cases k) auto
    have "n div 2 < 2 ^ k'" using "1.prems" k by auto
    then have "bit_length (n div 2) \<le> k'" using "1.IH"[OF False] by simp
    then show ?thesis using False k by (simp add: bit_length.simps[of n])
  qed
qed

lemma py_float_exact: "\<bar>i\<bar> < 2 ^ 53 \<Longrightarrow> py_float i = Inr (real_of_int i)"
proof -
  assume "\<bar>i\<bar> < 2 ^ 53"
  then have "nat \<bar>i\<bar> < 2 ^ 53" by (simp add: nat_less_iff)
  then have "bit_length (nat \<bar>i\<bar>) \<le> 53" by (rule bit_length_le)
  then show ?thesis by (simp add: py_float_def Let_def)
qed

lemma refill_same_time: "refill (refill b now) now = refill b now"
  by (simp add: refill_def Let_def)

lemma consume_unfold:
  "consume b n t =
     (n \<le> tokens (refill b t),
      (refill b t)\<lparr>tokens := tokens (refill b t) - (if n \<le> tokens (refill b t) then n else 0)\<rparr>)"
  by (simp add: consume_def Let_def)

lemma get_wait_time_positive_rate:
  assumes "0 < refill_rate b"
  shows "get_wait_time b n now =
           (Inr (if n \<le> tokens (refill b now) then 0
                 else (n - tokens (refill b now)) / refill_rate b), refill b now)"
  using assms by (simp add: get_wait_time_def Let_def refill_fields)

lemma log_available_fields:
  "rpm_bucket (log_available g t) = refill (rpm_bucket g) t"
  "tpm_bucket (log_available g t) = refill (tpm_bucket g) t"
  "total_requests (log_available g t) = total_requests g"
  "total_tokens_consumed (log_available g t) = total_tokens_consumed g"
  "total_wait_time (log_available g t) = total_wait_time g"
  "requests_throttled (log_available g t) = requests_throttled g"
  "semaphore (log_available g t) = semaphore g"
  "name (log_available g t) = name g"
  "config (log_available g t) = config g"
  "rate_limiter.more (log_available g t) = rate_limiter.more g"
  by (simp_all add: log_available_def get_available_tokens_def Let_def)

lemma throttle_fields:
  "fst (snd (throttle g wt now late)) = (if 0 < wt then Some wt else None)"
  "snd (snd (throttle g wt now late)) = (if 0 < wt then now + wt + late else now)"
  "rpm_bucket (fst (throttle g wt now late)) =
     (if 0 < wt then refill (rpm_bucket g) now else rpm_bucket g)"
  "tpm_bucket (fst (throttle g wt now late)) =
     (if 0 < wt then refill (tpm_bucket g) now else tpm_bucket g)"
  "total_requests (fst (throttle g wt now late)) = total_requests g"
  "total_tokens_consumed (fst (throttle g wt now late)) = total_tokens_consumed g"
  "total_wait_time (fst (throttle g wt now late)) = total_wait_time g + (if 0 < wt then wt else 0)"
  "requests_throttled (fst (throttle g wt now late)) = requests_throttled g + (if 0 < wt then 1 else 0)"
  "semaphore (fst (throttle g wt now late)) = semaphore g"
  "name (fst (throttle g wt now late)) = name g"
  "config (fst (throttle g wt now late)) = config g"
  "rate_limiter.more (fst (throttle g wt now late)) = rate_limiter.more g"
  by (simp_all add: throttle_def log_available_fields)

lemma take_tokens_fields:
  assumes "py_float w = Inr x"
  shows "fst (take_tokens g w t) = Inr ()"
  "rpm_bucket (snd (take_tokens g w t)) = refill (snd (consume (rpm_bucket g) 1 t)) t"
  "tpm_bucket (snd (take_tokens g w t)) = refill (snd (consume (tpm_bucket g) x t)) t"
  "total_requests (snd (take_tokens g w t)) = total_requests g + 1"
  "total_tokens_consumed (snd (take_tokens g w t)) = total_tokens_consumed g + w"
  "total_wait_time (snd (take_tokens g w t)) = total_wait_time g"
  "requests_throttled (snd (take_tokens g w t)) = requests_throttled g"
  "semaphore (snd (take_tokens g w t)) = semaphore g"
  "name (snd (take_tokens g w t)) = name g"
  "config (snd (take_tokens g w t)) = config g"
  "rate_limiter.more (snd (take_tokens g w t)) = rate_limiter.more g"
  using assms by (simp_all add: take_tokens_def log_available_fields Let_def)

lemma take_tokens_semaphore: "semaphore (snd (take_tokens g w t)) = semaphore g"
  by (simp add: take_tokens_def log_available_fields Let_def split: sum.splits)

lemma snd_reraise:
  "snd (case p of (Inl e, g4) \<Rightarrow> (Inl e, g4) | (Inr u, g4) \<Rightarrow> (Inr s, g4)) = snd p"
  by (cases p; cases "fst p") auto

lemma fst_reraise:
  "fst p = Inr u' \<Longrightarrow>
   fst (case p of (Inl e, g4) \<Rightarrow> (Inl e, g4) | (Inr u, g4) \<Rightarrow> (Inr s, g4)) = Inr s"
  by (cases p; cases "fst p") auto

lemma wait_for_capacity_semaphore:
  "semaphore (snd (wait_for_capacity g w now late)) = semaphore g"
  by (simp add: wait_for_capacity_def Let_def snd_reraise take_tokens_semaphore
      throttle_fields case_prod_beta split: prod.splits sum.splits)

text \<open>The method once both waits and the conversion have gone through.\<close>

lemma wait_for_capacity_unfold:
  assumes "get_wait_time (rpm_bucket g) 1 now = (Inr rw, rb)"
    and "py_float w = Inr x"
    and "get_wait_time (tpm_bucket g) x now = (Inr tw, tb)"
  shows "wait_for_capacity g w now late =
     (Inr (fst (snd (throttle (g\<lparr>rpm_bucket := rb, tpm_bucket := tb\<rparr>) (max rw tw) now late))),
      snd (take_tokens (fst (throttle (g\<lparr>rpm_bucket := rb, tpm_bucket := tb\<rparr>) (max rw tw) now late))
             w (snd (snd (throttle (g\<lparr>rpm_bucket := rb, tpm_bucket := tb\<rparr>) (max rw tw) now late)))))"
  using assms
  by (simp add: wait_for_capacity_def Let_def case_prod_beta take_tokens_fields(1)[OF assms(2)])

lemma wait_for_capacity_fields:
  assumes "get_wait_time (rpm_bucket g) 1 now = (Inr rw, rb)"
    and "py_float w = Inr x"
    and "get_wait_time (tpm_bucket g) x now = (Inr tw, tb)"
  shows "fst (wait_for_capacity g w now late) = Inr (if 0 < max rw tw then Some (max rw tw) else None)"
    and "rpm_bucket (snd (wait_for_capacity g w now late)) =
           refill (snd (consume (if 0 < max rw tw then refill rb now else rb) 1 (if 0 < max rw tw then now + max rw tw + late else now))) (if 0 < max rw tw then now + max rw tw + late else now)"
    and "tpm_bucket (snd (wait_for_capacity g w now late)) =
           refill (snd (consume (if 0 < max rw tw then refill tb now else tb) x (if 0 < max rw tw then now + max rw tw + late else now))) (if 0 < max rw tw then now + max rw tw + late else now)"
    and "total_requests (snd (wait_for_capacity g w now late)) = total_requests g + 1"
    and "total_tokens_consumed (snd (wait_for_capacity g w now late)) = total_tokens_consumed g + w"
    and "total_wait_time (snd (wait_for_capacity g w now late)) =
           total_wait_time g + (if 0 < max rw tw then max rw tw else 0)"
    and "requests_throttled (snd (wait_for_capacity g w now late)) =
           requests_throttled g + (if 0 < max rw tw then 1 else 0)"
    and "semaphore (snd (wait_for_capacity g w now late)) = semaphore g"
    and "name (snd (wait_for_capacity g w now late)) = name g"
    and "config (snd (wait_for_capacity g w now late)) = config g"
    and "rate_limiter.more (snd (wait_for_capacity g w now late)) = rate_limiter.more g"
  by (simp_all add: wait_for_capacity_unfold[OF assms(1-3)] take_tokens_fields[OF assms(2)]
      throttle_fields)

text \<open>The default limiter (500 requests and 30000 tokens a minute) and its buckets at the
  clock readings of the examples below.\<close>

lemma default_limiter:
  "RateLimiter nm None t =
     Inr \<lparr>name = nm, config = RateLimitConfig 500 30000 10,
          rpm_bucket = \<lparr>capacity = 500, refill_rate = 25/3, tokens = 500, last_refill_time = t\<rparr>,
          tpm_bucket = \<lparr>capacity = 30000, refill_rate = 500, tokens = 30000, last_refill_time = t\<rparr>,
          semaphore = 10, total_requests = 0, total_tokens_consumed = 0,
          total_wait_time = 0, requests_throttled = 0\<rparr>"
  by (simp add: RateLimiter_def RateLimitConfig_def TokenBucket_def)

lemma bucket_evals:
  "get_wait_time \<lparr>capacity = 500, refill_rate = 25/3, tokens = 500, last_refill_time = 0\<rparr> 1 0 =
     (Inr 0, \<lparr>capacity = 500, refill_rate = 25/3, tokens = 500, last_refill_time = 0\<rparr>)"
  "get_wait_time \<lparr>capacity = 30000, refill_rate = 500, tokens = 30000, last_refill_time = 0\<rparr> 40000 0 =
     (Inr 20, \<lparr>capacity = 30000, refill_rate = 500, tokens = 30000, last_refill_time = 0\<rparr>)"
  "refill \<lparr>capacity = 30000, refill_rate = 500, tokens = 30000, last_refill_time = 0\<rparr> 0 =
     \<lparr>capacity = 30000, refill_rate = 500, tokens = 30000, last_refill_time = 0\<rparr>"
  "refill \<lparr>capacity = 500, refill_rate = 25/3, tokens = 500, last_refill_time = 0\<rparr> 0 =
     \<lparr>capacity = 500, refill_rate = 25/3, tokens = 500, last_refill_time = 0\<rparr>"
  "consume \<lparr>capacity = 30000, refill_rate = 500, tokens = 30000, last_refill_time = 0\<rparr> 40000 20 =
     (False, \<lparr>capacity = 30000, refill_rate = 500, tokens = 30000, last_refill_time = 20\<rparr>)"
  "consume \<lparr>capacity = 500, refill_rate = 25/3, tokens = 500, last_refill_time = 0\<rparr> 1 20 =
     (True, \<lparr>capacity = 500, refill_rate = 25/3, tokens = 499, last_refill_time = 20\<rparr>)"
  "refill \<lparr>capacity = 30000, refill_rate = 500, tokens = 30000, last_refill_time = 20\<rparr> 20 =
     \<lparr>capacity = 30000, refill_rate = 500, tokens = 30000, last_refill_time = 20\<rparr>"
  "refill \<lparr>capacity = 500, refill_rate = 25/3, tokens = 499, last_refill_time = 20\<rparr> 20 =
     \<lparr>capacity = 500, refill_rate = 25/3, tokens = 499, last_refill_time = 20\<rparr>"
  by (simp_all add: get_wait_time_def consume_def refill_def Let_def)

section \<open>C2: the wait-for-capacity step at a weight above the budget\<close>

text \<open>
  Claim C2 has \<open>w\<close> tokens taken from the weight bucket after the wait in every call. The
  default limiter, asked for 40000 tokens at time 0, computes a wait of 20 seconds and
  sleeps; the \<open>consume\<close> of 40000 after the sleep finds the bucket at its capacity of
  30000, answers \<open>False\<close> and takes nothing; the answer is dropped, \<open>total_requests\<close> is 1
  and \<open>total_tokens_consumed\<close> is 40000 while the weight bucket still holds all of its
  30000 tokens.
\<close>

theorem oversized_weight_not_consumed:
  "fst (wait_for_capacity (projr (RateLimiter ''test'' None 0)) 40000 0 0) = Inr (Some 20) \<and>
   consume (refill (tpm_bucket (projr (RateLimiter ''test'' None 0))) 0) 40000 20 =
     (False, \<lparr>capacity = 30000, refill_rate = 500, tokens = 30000, last_refill_time = 20\<rparr>) \<and>
   tpm_bucket (snd (wait_for_capacity (projr (RateLimiter ''test'' None 0)) 40000 0 0)) =
     \<lparr>capacity = 30000, refill_rate = 500, tokens = 30000, last_refill_time = 20\<rparr> \<and>
   total_tokens_consumed (snd (wait_for_capacity (projr (RateLimiter ''test'' None 0)) 40000 0 0)) = 40000 \<and>
   total_requests (snd (wait_for_capacity (projr (RateLimiter ''test'' None 0)) 40000 0 0)) = 1"
proof -
  let ?g = "projr (RateLimiter ''test'' None 0)"
  have r: "get_wait_time (rpm_bucket ?g) 1 0 =
      (Inr 0, \<lparr>capacity = 500, refill_rate = 25/3, tokens = 500, last_refill_time = 0\<rparr>)"
    by (simp add: default_limiter bucket_evals)
  have f: "py_float 40000 = Inr 40000"
    using py_float_exact[of 40000] by simp
  have t: "get_wait_time (tpm_bucket ?g) 40000 0 =
      (Inr 20, \<lparr>capacity = 30000, refill_rate = 500, tokens = 30000, last_refill_time = 0\<rparr>)"
    by (simp add: default_limiter bucket_evals)
  note w = wait_for_capacity_fields[OF r f t, of 0]
  show ?thesis
    using w(1,3,4,5) by (simp add: default_limiter bucket_evals)
qed

section \<open>C5: a weight above the capacity of the weight bucket\<close>

text \<open>
  Claim C5, as stated, is about every limiter. A limiter configured with no tokens a
  minute has a weight bucket of capacity 0 and refill rate 0: every positive weight is
  above its capacity, and the wait computation divides by the refill rate. The call raises
  \<open>ZeroDivisionError\<close>; it neither sleeps nor admits the request, and counts nothing.
\<close>

theorem zero_rate_limiter_raises:
  "capacity (tpm_bucket (projr (RateLimiter ''test'' (Some (RateLimitConfig 500 0 10)) 0))) < 1 \<and>
   py_float 1 = Inr 1 \<and>
   wait_for_capacity (projr (RateLimiter ''test'' (Some (RateLimitConfig 500 0 10)) 0)) 1 0 0 =
     (Inl ZeroDivisionError, projr (RateLimiter ''test'' (Some (RateLimitConfig 500 0 10)) 0))"
proof -
  have g: "projr (RateLimiter ''test'' (Some (RateLimitConfig 500 0 10)) 0) =
     \<lparr>name = ''test'', config = RateLimitConfig 500 0 10,
      rpm_bucket = \<lparr>capacity = 500, refill_rate = 25/3, tokens = 500, last_refill_time = 0\<rparr>,
      tpm_bucket = \<lparr>capacity = 0, refill_rate = 0, tokens = 0, last_refill_time = 0\<rparr>,
      semaphore = 10, total_requests = 0, total_tokens_consumed = 0,
      total_wait_time = 0, requests_throttled = 0\<rparr>"
    by (simp add: RateLimiter_def RateLimitConfig_def TokenBucket_def)
  have f: "py_float 1 = Inr 1" using py_float_exact[of 1] by simp
  have t: "get_wait_time \<lparr>capacity = 0, refill_rate = 0, tokens = 0, last_refill_time = 0\<rparr> 1 0 =
      (Inl ZeroDivisionError, \<lparr>capacity = 0, refill_rate = 0, tokens = 0, last_refill_time = 0\<rparr>)"
    by (simp add: get_wait_time_def refill_def Let_def)
  show ?thesis
    unfolding g by (simp add: wait_for_capacity_def f t bucket_evals)
qed

text \<open>
  Claim C5, amended. For every limiter whose two buckets refill at a positive rate, and
  every weight \<open>w\<close> that converts to a float \<open>x\<close> above the capacity of the weight bucket
  (the conversion is exact up to \<open>2 ^ 53\<close> and raises from \<open>2 ^ 1024\<close> on): both waits are
  computed, the weight bucket's is positive, and the call sleeps for the maximum of the
  two and returns; whenever the task is resumed, the \<open>consume\<close> of \<open>x\<close> fails, so the weight
  bucket is exactly what the refill at that moment made it; and \<open>total_tokens_consumed\<close>
  has gone up by \<open>w\<close>, \<open>total_requests\<close> by one.
\<close>

theorem oversized_weight_admitted_unconsumed:
  assumes "0 < refill_rate (rpm_bucket g)" "0 < refill_rate (tpm_bucket g)"
    and "py_float w = Inr x" "capacity (tpm_bucket g) < x"
  shows "\<exists>rpm_wait tpm_wait.
     fst (get_wait_time (rpm_bucket g) 1 now) = Inr rpm_wait \<and>
     fst (get_wait_time (tpm_bucket g) x now) = Inr tpm_wait \<and>
     0 < tpm_wait \<and>
     (let wait_time = max rpm_wait tpm_wait;
          resumed = now + wait_time + late;
          tb = refill (tpm_bucket g) now;
          g' = snd (wait_for_capacity g w now late)
      in fst (wait_for_capacity g w now late) = Inr (Some wait_time) \<and>
         fst (consume tb x resumed) = False \<and>
         tpm_bucket g' = refill tb resumed \<and>
         total_tokens_consumed g' = total_tokens_consumed g + w \<and>
         total_requests g' = total_requests g + 1)"
proof -
  let ?rb = "refill (rpm_bucket g) now"
  let ?tb = "refill (tpm_bucket g) now"
  define rw where "rw = (if 1 \<le> tokens ?rb then 0 else (1 - tokens ?rb) / refill_rate (rpm_bucket g))"
  define tw where "tw = (x - tokens ?tb) / refill_rate (tpm_bucket g)"
  have less: "tokens ?tb < x"
    using assms(4) by (simp add: refill_fields min_less_iff_disj)
  have r: "get_wait_time (rpm_bucket g) 1 now = (Inr rw, ?rb)"
    using assms(1) by (simp add: get_wait_time_positive_rate rw_def)
  have t: "get_wait_time (tpm_bucket g) x now = (Inr tw, ?tb)"
    using assms(2) less by (simp add: get_wait_time_positive_rate tw_def)
  have pos: "0 < tw" using assms(2) less by (simp add: tw_def)
  then have wpos: "0 < max rw tw" by simp
  let ?t' = "now + max rw tw + late"
  have cap: "tokens (refill ?tb ?t') \<le> capacity (tpm_bucket g)"
    by (simp add: refill_fields)
  then have fail: "\<not> x \<le> tokens (refill ?tb ?t')"
    using assms(4) by linarith
  have c: "consume ?tb x ?t' = (False, refill ?tb ?t')"
    using fail by (simp add: consume_unfold)
  note f = wait_for_capacity_fields[OF r assms(3) t, of late]
  have 1: "fst (wait_for_capacity g w now late) = Inr (Some (max rw tw))"
    using f(1) wpos by simp
  have 2: "tpm_bucket (snd (wait_for_capacity g w now late)) = refill ?tb ?t'"
    using f(3) wpos c by (simp add: refill_same_time)
  have 3: "total_tokens_consumed (snd (wait_for_capacity g w now late)) = total_tokens_consumed g + w"
    "total_requests (snd (wait_for_capacity g w now late)) = total_requests g + 1"
    using f(4,5) by simp_all
  show ?thesis
    using r t pos 1 2 3 c by (auto simp: Let_def)
qed

text \<open>The default limiter (30000 tokens a minute) asked for 40000 tokens.\<close>

theorem oversized_weight_admitted_unconsumed_witness:
  "fst (wait_for_capacity (projr (RateLimiter ''test'' None 0)) 40000 0 0) = Inr (Some 20) \<and>
   fst (consume (refill (tpm_bucket (projr (RateLimiter ''test'' None 0))) 0) 40000 20) = False \<and>
   tpm_bucket (snd (wait_for_capacity (projr (RateLimiter ''test'' None 0)) 40000 0 0)) =
     \<lparr>capacity = 30000, refill_rate = 500, tokens = 30000, last_refill_time = 20\<rparr> \<and>
   total_tokens_consumed (snd (wait_for_capacity (projr (RateLimiter ''test'' None 0)) 40000 0 0)) = 40000"
proof -
  let ?g = "projr (RateLimiter ''test'' None 0)"
  have r: "0 < refill_rate (rpm_bucket ?g)" and t: "0 < refill_rate (tpm_bucket ?g)"
    and c: "capacity (tpm_bucket ?g) < 40000"
    by (simp_all add: default_limiter)
  have f: "py_float 40000 = Inr 40000"
    using py_float_exact[of 40000] by simp
  from oversized_weight_admitted_unconsumed[OF r t f c, of 0 0]
  obtain rw tw where
    rw: "fst (get_wait_time (rpm_bucket ?g) 1 0) = Inr rw" and
    tw: "fst (get_wait_time (tpm_bucket ?g) 40000 0) = Inr tw" and
    rest: "fst (wait_for_capacity ?g 40000 0 0) = Inr (Some (max rw tw))"
      "fst (consume (refill (tpm_bucket ?g) 0) 40000 (0 + max rw tw + 0)) = False"
      "tpm_bucket (snd (wait_for_capacity ?g 40000 0 0)) =
         refill (refill (tpm_bucket ?g) 0) (0 + max rw tw + 0)"
      "total_tokens_consumed (snd (wait_for_capacity ?g 40000 0 0)) = total_tokens_consumed ?g + 40000"
    unfolding Let_def by blast
  have "rw = 0" using rw by (simp add: default_limiter bucket_evals)
  moreover have "tw = 20" using tw by (simp add: default_limiter bucket_evals)
  ultimately show ?thesis
    using rest by (simp add: default_limiter bucket_evals refill_def)
qed

section \<open>C8: leaving the scope\<close>

text \<open>
  Claim C8. For every acquisition that entered the scope, whatever the guarded body does
  and whether it returns or raises: \<open>__aenter__\<close> took exactly one slot of the semaphore,
  \<open>__aexit__\<close> gives exactly one slot back and answers \<open>False\<close>, so the body's exception
  goes on to the caller; the limiter after the scope is the limiter the body left with
  that one slot more, so both token buckets are as the body left them: no token is
  returned on exit.
\<close>

theorem scope_exit_releases_one_slot:
  fixes body :: "rate_limiter \<Rightarrow> ('e + 'r) \<times> rate_limiter" and exc :: "'e option"
  assumes "aenter g w now late = (Entered slept, g1)"
  shows "semaphore g1 = semaphore g - 1 \<and>
      aexit (snd (body g1)) exc =
        (False, (snd (body g1))\<lparr>semaphore := semaphore (snd (body g1)) + 1\<rparr>) \<and>
      async_with g w now late body =
        (case fst (body g1) of Inl e \<Rightarrow> BodyRaised e | Inr r \<Rightarrow> BodyReturned r,
         (snd (body g1))\<lparr>semaphore := semaphore (snd (body g1)) + 1\<rparr>) \<and>
      rpm_bucket (snd (async_with g w now late body)) = rpm_bucket (snd (body g1)) \<and>
      tpm_bucket (snd (async_with g w now late body)) = tpm_bucket (snd (body g1))"
proof -
  obtain res g0 where wf: "wait_for_capacity g w now late = (res, g0)"
    by (cases "wait_for_capacity g w now late")
  have s0: "semaphore g0 = semaphore g"
    using wait_for_capacity_semaphore[of g w now late] wf by simp
  have g1: "g1 = g0\<lparr>semaphore := semaphore g0 - 1\<rparr>"
    using assms wf by (auto simp: aenter_def split: sum.splits if_splits)
  have sem: "semaphore g1 = semaphore g - 1" using g1 s0 by simp
  obtain r g2 where b: "body g1 = (r, g2)" by (cases "body g1")
  have "async_with g w now late body =
      (case r of Inl e \<Rightarrow> BodyRaised e | Inr x \<Rightarrow> BodyReturned x, g2\<lparr>semaphore := semaphore g2 + 1\<rparr>)"
    using assms b by (simp add: async_with_def aexit_def split: sum.splits)
  then show ?thesis using sem b by (simp add: aexit_def)
qed

text \<open>The drained limiter of the unit test, entered with weight 100 by a body that raises:
  9 of 10 slots while inside, 10 after, the buckets as the entry left them.\<close>

lemma test_limiter_wait:
  "wait_for_capacity test_limiter 100 0 0 =
     (Inr (Some 1),
      test_limiter\<lparr>rpm_bucket := \<lparr>capacity = 60, refill_rate = 1, tokens = 0, last_refill_time = 1\<rparr>,
        tpm_bucket := \<lparr>capacity = 6000, refill_rate = 100, tokens = 5900, last_refill_time = 1\<rparr>,
        total_requests := 1, total_tokens_consumed := 100,
        total_wait_time := 1, requests_throttled := 1\<rparr>)"
proof -
  have r: "get_wait_time (rpm_bucket test_limiter) 1 0 =
      (Inr 1, \<lparr>capacity = 60, refill_rate = 1, tokens = 0, last_refill_time = 0\<rparr>)"
    by (simp add: test_limiter_def get_wait_time_def refill_def Let_def)
  have f: "py_float 100 = Inr 100" using py_float_exact[of 100] by simp
  have t: "get_wait_time (tpm_bucket test_limiter) 100 0 =
      (Inr 0, \<lparr>capacity = 6000, refill_rate = 100, tokens = 6000, last_refill_time = 0\<rparr>)"
    by (simp add: test_limiter_def get_wait_time_def refill_def Let_def)
  note w = wait_for_capacity_fields[OF r f t, of 0]
  have rb: "rpm_bucket (snd (wait_for_capacity test_limiter 100 0 0)) =
      \<lparr>capacity = 60, refill_rate = 1, tokens = 0, last_refill_time = 1\<rparr>"
    using w(2) by (simp add: consume_def refill_def Let_def)
  have tb: "tpm_bucket (snd (wait_for_capacity test_limiter 100 0 0)) =
      \<lparr>capacity = 6000, refill_rate = 100, tokens = 5900, last_refill_time = 1\<rparr>"
    using w(3) by (simp add: consume_def refill_def Let_def)
  have "snd (wait_for_capacity test_limiter 100 0 0) =
      test_limiter\<lparr>rpm_bucket := \<lparr>capacity = 60, refill_rate = 1, tokens = 0, last_refill_time = 1\<rparr>,
        tpm_bucket := \<lparr>capacity = 6000, refill_rate = 100, tokens = 5900, last_refill_time = 1\<rparr>,
        total_requests := 1, total_tokens_consumed := 100,
        total_wait_time := 1, requests_throttled := 1\<rparr>"
    by (rule rate_limiter.equality) (simp_all add: rb tb w(4-11), simp_all add: test_limiter_def)
  then show ?thesis using w(1) by (simp add: prod_eq_iff)
qed

theorem scope_exit_releases_one_slot_witness:
  "aenter test_limiter 100 0 0 =
     (Entered (Some 1),
      test_limiter\<lparr>rpm_bucket := \<lparr>capacity = 60, refill_rate = 1, tokens = 0, last_refill_time = 1\<rparr>,
        tpm_bucket := \<lparr>capacity = 6000, refill_rate = 100, tokens = 5900, last_refill_time = 1\<rparr>,
        semaphore := 9,
        total_requests := 1, total_tokens_consumed := 100,
        total_wait_time := 1, requests_throttled := 1\<rparr>) \<and>
   async_with test_limiter 100 0 0 failing_body =
     (BodyRaised ''API unavailable'',
      test_limiter\<lparr>rpm_bucket := \<lparr>capacity = 60, refill_rate = 1, tokens = 0, last_refill_time = 1\<rparr>,
        tpm_bucket := \<lparr>capacity = 6000, refill_rate = 100, tokens = 5900, last_refill_time = 1\<rparr>,
        semaphore := 10,
        total_requests := 1, total_tokens_consumed := 100,
        total_wait_time := 1, requests_throttled := 1\<rparr>)"
proof -
  have e: "aenter test_limiter 100 0 0 =
     (Entered (Some 1),
      test_limiter\<lparr>rpm_bucket := \<lparr>capacity = 60, refill_rate = 1, tokens = 0, last_refill_time = 1\<rparr>,
        tpm_bucket := \<lparr>capacity = 6000, refill_rate = 100, tokens = 5900, last_refill_time = 1\<rparr>,
        semaphore := 9,
        total_requests := 1, total_tokens_consumed := 100,
        total_wait_time := 1, requests_throttled := 1\<rparr>)"
    by (simp add: aenter_def test_limiter_wait) (simp add: test_limiter_def)
  from scope_exit_releases_one_slot[OF e, of failing_body None] e
  show ?thesis
    by (simp add: failing_body_def test_limiter_def)
qed

section \<open>C10: one limiter per model name\<close>

lemma get_rate_limiter_known:
  "rate_limiters w model = Some a \<Longrightarrow> get_rate_limiter w model now = (Inr a, w)"
  by (simp add: get_rate_limiter_def)

lemma RateLimiter_default_ok:
  "RateLimiter nm (Some (RateLimitConfig 500 tpm 10)) now =
     Inr \<lparr>name = nm, config = RateLimitConfig 500 tpm 10,
          rpm_bucket = TokenBucket 500 (500 / 60) now,
          tpm_bucket = TokenBucket (real_of_int tpm) (real_of_int tpm / 60) now,
          semaphore = 10, total_requests = 0, total_tokens_consumed = 0,
          total_wait_time = 0, requests_throttled = 0\<rparr>"
  by (simp add: RateLimiter_def RateLimitConfig_def)

lemma get_rate_limiter_new:
  assumes "rate_limiters w model = None"
  shows "get_rate_limiter w model now =
     (Inr (length (heap w)),
      w\<lparr>heap := heap w @
           [\<lparr>name = ''openai_'' @ model,
             config = RateLimitConfig 500 (if sublist ''mini'' (lower model) then 200000 else 30000) 10,
             rpm_bucket = TokenBucket 500 (500 / 60) now,
             tpm_bucket = TokenBucket (if sublist ''mini'' (lower model) then 200000 else 30000)
                            ((if sublist ''mini'' (lower model) then 200000 else 30000) / 60) now,
             semaphore = 10, total_requests = 0, total_tokens_consumed = 0,
             total_wait_time = 0, requests_throttled = 0\<rparr>],
        rate_limiters := (rate_limiters w)(model \<mapsto> length (heap w))\<rparr>)"
  using assms by (simp add: get_rate_limiter_def RateLimiter_default_ok Let_def)

text \<open>A lookup keeps every entry of the dictionary and every object of the store.\<close>

lemma get_rate_limiter_keeps:
  assumes "rate_limiters w m = Some a"
  shows "rate_limiters (snd (get_rate_limiter w m' now)) m = Some a"
    and "a < length (heap w) \<Longrightarrow> heap (snd (get_rate_limiter w m' now)) ! a = heap w ! a"
    and "a < length (heap w) \<Longrightarrow> a < length (heap (snd (get_rate_limiter w m' now)))"
proof -
  show "rate_limiters (snd (get_rate_limiter w m' now)) m = Some a"
  proof (cases "rate_limiters w m'")
    case None
    then have "m' \<noteq> m" using assms by auto
    then show ?thesis using None assms by (simp add: get_rate_limiter_new)
  next
    case (Some b)
    then show ?thesis using assms by (simp add: get_rate_limiter_known)
  qed
  show "a < length (heap w) \<Longrightarrow> heap (snd (get_rate_limiter w m' now)) ! a = heap w ! a"
    by (cases "rate_limiters w m'") (simp_all add: get_rate_limiter_new get_rate_limiter_known nth_append)
  show "a < length (heap w) \<Longrightarrow> a < length (heap (snd (get_rate_limiter w m' now)))"
    by (cases "rate_limiters w m'") (simp_all add: get_rate_limiter_new get_rate_limiter_known)
qed

lemma lookups_keep:
  assumes "rate_limiters w m = Some a" "a < length (heap w)"
  shows "rate_limiters (lookups w later) m = Some a \<and> heap (lookups w later) ! a = heap w ! a"
  using assms
proof (induction later arbitrary: w)
  case Nil
  then show ?case by simp
next
  case (Cons x later)
  obtain m' t where x: "x = (m', t)" by (cases x)
  let ?w1 = "snd (get_rate_limiter w m' t)"
  have "rate_limiters (lookups ?w1 later) m = Some a \<and> heap (lookups ?w1 later) ! a = heap ?w1 ! a"
    using Cons.IH[of ?w1] get_rate_limiter_keeps[OF Cons.prems(1)] Cons.prems(2) by simp
  then show ?case
    using x get_rate_limiter_keeps(2)[OF Cons.prems(1) Cons.prems(2)] by simp
qed

lemma mini_names:
  "sublist ''mini'' (lower ''gpt-4o-Mini'')" "\<not> sublist ''mini'' ''gpt-4o-Mini''"
  "sublist ''mini'' (lower ''gpt-4o-mini'')" "\<not> sublist ''mini'' (lower ''gpt-4o'')"
  by code_simp+

text \<open>
  Claim C10, as stated, gives the higher budget to names containing \<open>mini\<close> and 30000 to
  all others. The source compares with \<open>model.lower()\<close>: the name \<open>gpt-4o-Mini\<close> does not
  contain \<open>mini\<close> and still gets 200000 tokens a minute.
\<close>

theorem uppercase_mini_gets_higher_budget:
  "\<not> sublist ''mini'' ''gpt-4o-Mini'' \<and>
   fst (get_rate_limiter empty_registry ''gpt-4o-Mini'' 0) = Inr 0 \<and>
   tokens_per_minute (config (heap (snd (get_rate_limiter empty_registry ''gpt-4o-Mini'' 0)) ! 0)) = 200000"
  using mini_names(1,2)
  by (simp add: get_rate_limiter_new empty_registry_def RateLimitConfig_def)

text \<open>
  Claim C10, amended. For every model name: a name already in the dictionary gets the
  address stored there and nothing changes; a name not yet in it gets a limiter created at
  that lookup, stored at a fresh address, named \<open>openai_\<close> followed by the model name, with
  500 requests a minute, 10 concurrent requests and a weight budget of 200000 a minute
  when the lower-cased name contains \<open>mini\<close> and of 30000 otherwise; and every later
  lookup of that name, after any other lookups, returns that same address, changes nothing
  and finds the same object there.
\<close>

theorem registry_one_limiter_per_name:
  "(\<forall>a. rate_limiters w model = Some a \<longrightarrow> get_rate_limiter w model now = (Inr a, w)) \<and>
   (rate_limiters w model = None \<longrightarrow>
      (let a = length (heap w);
           tpm = (if sublist ''mini'' (lower model) then 200000 else 30000);
           w1 = snd (get_rate_limiter w model now);
           l = heap w1 ! a
       in fst (get_rate_limiter w model now) = Inr a \<and>
          heap w1 = heap w @ [l] \<and>
          rate_limiters w1 = (rate_limiters w)(model \<mapsto> a) \<and>
          name l = ''openai_'' @ model \<and>
          config l = RateLimitConfig 500 tpm 10 \<and>
          capacity (tpm_bucket l) = real_of_int tpm \<and>
          tokens (tpm_bucket l) = real_of_int tpm \<and>
          (\<forall>later t. get_rate_limiter (lookups w1 later) model t = (Inr a, lookups w1 later) \<and>
                      heap (lookups w1 later) ! a = l)))"
proof -
  have known: "\<forall>a. rate_limiters w model = Some a \<longrightarrow> get_rate_limiter w model now = (Inr a, w)"
    by (simp add: get_rate_limiter_known)
  have new: "(let a = length (heap w);
           tpm = (if sublist ''mini'' (lower model) then 200000 else 30000);
           w1 = snd (get_rate_limiter w model now);
           l = heap w1 ! a
       in fst (get_rate_limiter w model now) = Inr a \<and>
          heap w1 = heap w @ [l] \<and>
          rate_limiters w1 = (rate_limiters w)(model \<mapsto> a) \<and>
          name l = ''openai_'' @ model \<and>
          config l = RateLimitConfig 500 tpm 10 \<and>
          capacity (tpm_bucket l) = real_of_int tpm \<and>
          tokens (tpm_bucket l) = real_of_int tpm \<and>
          (\<forall>later t. get_rate_limiter (lookups w1 later) model t = (Inr a, lookups w1 later) \<and>
                      heap (lookups w1 later) ! a = l))"
    if none: "rate_limiters w model = None"
  proof -
    let ?a = "length (heap w)"
    let ?w1 = "snd (get_rate_limiter w model now)"
    have in_reg: "rate_limiters ?w1 model = Some ?a" and in_heap: "?a < length (heap ?w1)"
      using none by (simp_all add: get_rate_limiter_new)
    have later: "get_rate_limiter (lookups ?w1 later) model t = (Inr ?a, lookups ?w1 later) \<and>
                 heap (lookups ?w1 later) ! ?a = heap ?w1 ! ?a" for later t
      using lookups_keep[OF in_reg in_heap, of later] by (simp add: get_rate_limiter_known)
    show ?thesis
      unfolding Let_def using later none
      by (simp add: get_rate_limiter_new TokenBucket_def)
  qed
  show ?thesis using known new by blast
qed

text \<open>The unit tests of the registry: \<open>gpt-4o-mini\<close> then \<open>gpt-4o\<close>, then \<open>gpt-4o-mini\<close> again.\<close>

theorem registry_one_limiter_per_name_witness:
  "fst (get_rate_limiter empty_registry ''gpt-4o-mini'' 0) = Inr 0 \<and>
   tokens_per_minute (config (heap (snd (get_rate_limiter empty_registry ''gpt-4o-mini'' 0)) ! 0)) = 200000 \<and>
   fst (get_rate_limiter (lookups (snd (get_rate_limiter empty_registry ''gpt-4o-mini'' 0)) [(''gpt-4o'', 1)])
          ''gpt-4o-mini'' 2) = Inr 0 \<and>
   fst (get_rate_limiter (snd (get_rate_limiter empty_registry ''gpt-4o-mini'' 0)) ''gpt-4o'' 1) = Inr 1 \<and>
   tokens_per_minute (config (heap (snd (get_rate_limiter
        (snd (get_rate_limiter empty_registry ''gpt-4o-mini'' 0)) ''gpt-4o'' 1)) ! 1)) = 30000"
proof -
  have none: "rate_limiters empty_registry ''gpt-4o-mini'' = None"
    by (simp add: empty_registry_def)
  let ?w1 = "snd (get_rate_limiter empty_registry ''gpt-4o-mini'' 0)"
  have none2: "rate_limiters ?w1 ''gpt-4o'' = None"
    using get_rate_limiter_new[OF none, of 0] by (simp add: empty_registry_def)
  have len: "length (heap empty_registry) = 0" "length (heap ?w1) = 1"
    using get_rate_limiter_new[OF none, of 0] by (simp_all add: empty_registry_def)
  have a: "fst (get_rate_limiter empty_registry ''gpt-4o-mini'' 0) = Inr 0 \<and>
     config (heap ?w1 ! 0) = RateLimitConfig 500 200000 10 \<and>
     (\<forall>later t. get_rate_limiter (lookups ?w1 later) ''gpt-4o-mini'' t = (Inr 0, lookups ?w1 later))"
    using registry_one_limiter_per_name[of empty_registry "''gpt-4o-mini''" 0] none mini_names(3) len
    by (simp add: Let_def)
  have b: "fst (get_rate_limiter ?w1 ''gpt-4o'' 1) = Inr 1 \<and>
     config (heap (snd (get_rate_limiter ?w1 ''gpt-4o'' 1)) ! 1) = RateLimitConfig 500 30000 10"
    using registry_one_limiter_per_name[of ?w1 "''gpt-4o''" 1] none2 mini_names(4) len
    by (simp add: Let_def)
  have c: "get_rate_limiter (lookups ?w1 [(''gpt-4o'', 1)]) ''gpt-4o-mini'' 2 =
      (Inr 0, lookups ?w1 [(''gpt-4o'', 1)])"
    using a by blast
  show ?thesis
    using a b c by (simp add: RateLimitConfig_def)
qed

section \<open>Facts about the session manager\<close>

lemma close_session_returns: "fst (close_session env m sid md) = Inr ()"
  by (simp add: close_session_def split: prod.splits sum.splits)

lemma close_session_state:
  "snd (close_session env m sid md) = m\<lparr>events := events m @ close_events env sid md\<rparr>"
  by (simp add: close_events_def close_session_def teardown_def log_event_def
      SessionManager_def Let_def split: option.splits)

lemma close_session_eq:
  "close_session env m sid md = (Inr (), m\<lparr>events := events m @ close_events env sid md\<rparr>)"
  using close_session_returns[of env m sid md] close_session_state[of env m sid md]
  by (simp add: prod_eq_iff)


lemma evict_oldest_session_eq:
  "evict_oldest_session env m =
     (case sessions m of
        [] \<Rightarrow> (Inr (), m)
      | (sid, md) # rest \<Rightarrow>
          (Inr (), m\<lparr>sessions := rest, events := events m @ close_events env sid md,
                     sessions_evicted := sessions_evicted m + 1\<rparr>))"
  by (simp add: evict_oldest_session_def close_session_eq split: list.splits)

lemma map_of_in_keys: "(map_of xs k = None) = (k \<notin> fst ` set xs)"
  by (simp add: map_of_eq_None_iff)

lemma remove_session_eq:
  "remove_session env m sid =
     (case map_of (sessions m) sid of
        None \<Rightarrow> (Inr (), m)
      | Some md \<Rightarrow> (Inr (), m\<lparr>sessions := without_key sid (sessions m),
                               events := events m @ close_events env sid md\<rparr>))"
  by (auto simp: remove_session_def dict_pop_def close_session_eq map_of_in_keys[symmetric]
      split: option.splits)

lemma without_key_keys: "fst ` set (without_key k xs) = fst ` set xs - {k}"
  by (auto simp: without_key_def)

lemma without_key_distinct: "distinct (map fst xs) \<Longrightarrow> distinct (map fst (without_key k xs))"
  by (simp add: without_key_def distinct_map_filter)

lemma map_of_without_key: "k' \<noteq> k \<Longrightarrow> map_of (without_key k xs) k' = map_of xs k'"
  by (induction xs) (auto simp: without_key_def)

lemma without_key_filter:
  "without_key k (filter (\<lambda>(k', v). k' \<notin> A) xs) = filter (\<lambda>(k', v). k' \<notin> insert k A) xs"
  by (induction xs) (auto simp: without_key_def)

lemma filter_without_key:
  "filter (\<lambda>(k', md). k' \<notin> A) (without_key k xs) = filter (\<lambda>(k', md). k' \<notin> insert k A) xs"
  by (induction xs) (auto simp: without_key_def)

text \<open>The second loop of the cleanup, over keys that are in the dictionary.\<close>

lemma remove_expired_eq:
  assumes "distinct ks" "set ks \<subseteq> fst ` set (sessions m)"
  shows "remove_expired env m ks =
     (Inr (),
      m\<lparr>sessions := filter (\<lambda>(k, md). k \<notin> set ks) (sessions m),
        sessions_expired := sessions_expired m + int (length ks),
        events := events m @
          concat (map (\<lambda>k. close_events env k (the (map_of (sessions m) k))) ks)\<rparr>)"
  using assms
proof (induction ks arbitrary: m)
  case Nil
  then show ?case by simp
next
  case (Cons k ks)
  obtain md where md: "map_of (sessions m) k = Some md"
    using Cons.prems(2) by (cases "map_of (sessions m) k") (auto simp: map_of_in_keys)
  let ?m1 = "m\<lparr>sessions := without_key k (sessions m),
                events := events m @ close_events env k md,
                sessions_expired := sessions_expired m + 1\<rparr>"
  have step: "remove_expired env m (k # ks) = remove_expired env ?m1 ks"
    using md by (simp add: dict_pop_def close_session_eq)
  have sub: "set ks \<subseteq> fst ` set (sessions ?m1)"
    using Cons.prems by (auto simp: without_key_keys)
  have same: "map_of (sessions ?m1) k' = map_of (sessions m) k'" if "k' \<in> set ks" for k'
  proof -
    have "k' \<noteq> k" using that Cons.prems(1) by auto
    then show ?thesis by (simp add: map_of_without_key)
  qed
  then have ev: "map (\<lambda>k'. close_events env k' (the (map_of (sessions ?m1) k'))) ks =
             map (\<lambda>k'. close_events env k' (the (map_of (sessions m) k'))) ks"
    by (intro map_cong) auto
  have flt: "filter (\<lambda>(k', md). k' \<notin> set ks) (without_key k (sessions m)) =
             filter (\<lambda>(k', md). k' \<notin> set (k # ks)) (sessions m)"
    by (simp add: filter_without_key)
  have ih: "remove_expired env ?m1 ks =
     (Inr (),
      ?m1\<lparr>sessions := filter (\<lambda>(k, md). k \<notin> set ks) (sessions ?m1),
        sessions_expired := sessions_expired ?m1 + int (length ks),
        events := events ?m1 @
          concat (map (\<lambda>k. close_events env k (the (map_of (sessions ?m1) k))) ks)\<rparr>)"
    using Cons.IH[of ?m1] Cons.prems(1) sub by simp
  show ?case
    unfolding step ih ev
    by (simp add: md) (rule session_manager.equality; simp add: flt[simplified])
qed

lemma filter_not_expired_keys:
  assumes "distinct (map fst xs)"
  shows "filter (\<lambda>(k, md). k \<notin> set (map fst (filter P xs))) xs = filter (\<lambda>x. \<not> P x) xs"
proof (rule filter_cong[OF refl])
  fix x assume x: "x \<in> set xs"
  obtain k md where km: "x = (k, md)" by (cases x)
  have "k \<in> set (map fst (filter P xs)) \<longleftrightarrow> P (k, md)"
  proof
    assume "k \<in> set (map fst (filter P xs))"
    then obtain md' where m': "(k, md') \<in> set xs" "P (k, md')" by auto
    then have "md' = md" using assms x km by (meson eq_key_imp_eq_value)
    then show "P (k, md)" using m' by simp
  next
    assume "P (k, md)"
    then show "k \<in> set (map fst (filter P xs))" using x km by force
  qed
  then show "(case x of (k, md) \<Rightarrow> k \<notin> set (map fst (filter P xs))) = (\<not> P x)"
    using km by simp
qed

lemma map_over_keys:
  assumes "distinct (map fst xs)"
  shows "map (\<lambda>k. f k (the (map_of xs k))) (map fst (filter P xs)) =
         map (\<lambda>(k, md). f k md) (filter P xs)"
proof -
  have "f (fst x) (the (map_of xs (fst x))) = (case x of (k, md) \<Rightarrow> f k md)"
    if "x \<in> set (filter P xs)" for x
  proof -
    obtain k md where km: "x = (k, md)" by (cases x)
    then have "map_of xs k = Some md" using that assms by simp
    then show ?thesis using km by simp
  qed
  then show ?thesis by (simp add: comp_def cong: map_cong)
qed

lemma cleanup_expired_sessions_eq:
  assumes "distinct (map fst (sessions m))"
  shows "cleanup_expired_sessions env m now =
     (Inr (int (length (filter (\<lambda>(sid, md). age now md > session_ttl m) (sessions m)))),
      m\<lparr>sessions := filter (\<lambda>(sid, md). \<not> age now md > session_ttl m) (sessions m),
        sessions_expired := sessions_expired m +
          int (length (filter (\<lambda>(sid, md). age now md > session_ttl m) (sessions m))),
        events := events m @
          concat (map (\<lambda>(sid, md). close_events env sid md)
                    (filter (\<lambda>(sid, md). age now md > session_ttl m) (sessions m)))\<rparr>)"
proof -
  let ?P = "\<lambda>(sid, md). age now md > session_ttl m"
  let ?ks = "expired_sessions m now"
  have ks: "?ks = map fst (filter ?P (sessions m))" by (simp add: expired_sessions_def)
  have d: "distinct ?ks" using assms by (simp add: ks distinct_map_filter)
  have sub: "set ?ks \<subseteq> fst ` set (sessions m)" by (auto simp: ks)
  have keep: "filter (\<lambda>(k, md). k \<notin> set ?ks) (sessions m) =
              filter (\<lambda>(sid, md). \<not> age now md > session_ttl m) (sessions m)"
    using filter_not_expired_keys[OF assms, of ?P]
    by (simp add: ks case_prod_unfold)
  have ev: "map (\<lambda>k. close_events env k (the (map_of (sessions m) k))) ?ks =
            map (\<lambda>(sid, md). close_events env sid md) (filter ?P (sessions m))"
    using map_over_keys[OF assms, of "close_events env" ?P] by (simp add: ks)
  have len: "length ?ks = length (filter ?P (sessions m))" by (simp add: ks)
  show ?thesis
    by (simp add: cleanup_expired_sessions_def Let_def remove_expired_eq[OF d sub] keep ev len)
qed

lemma get_session_eq:
  "get_session env m sid now =
     (case map_of (sessions m) sid of
        Some md \<Rightarrow>
          (Inr (session md),
           m\<lparr>sessions := without_key sid (sessions m) @ [(sid, update_access md now)],
             cache_hits := cache_hits m + 1\<rparr>)
      | None \<Rightarrow>
          (let evict = int (length (sessions m)) \<ge> max_sessions m \<and> sessions m \<noteq> [];
               s = \<lparr>session_id = sid, db_path = manager_db_path m\<rparr>;
               md = \<lparr>session = s, created_at = now, last_accessed = now, access_count = 1\<rparr>
           in (Inr s,
               m\<lparr>sessions := (if evict then tl (sessions m) else sessions m) @ [(sid, md)],
                 events := events m @
                   (if evict then close_events env (fst (hd (sessions m))) (snd (hd (sessions m)))
                    else []),
                 sessions_evicted := sessions_evicted m + (if evict then 1 else 0),
                 cache_misses := cache_misses m + 1,
                 sessions_created := sessions_created m + 1\<rparr>)))"
proof (cases "map_of (sessions m) sid")
  case (Some md)
  then show ?thesis by (simp add: get_session_def update_access_def Let_def)
next
  case None
  show ?thesis
  proof (cases "sessions m")
    case Nil
    then show ?thesis using None
      by (simp add: get_session_def Let_def evict_oldest_session_eq;
          rule session_manager.equality; simp)
  next
    case (Cons x rest)
    obtain k md where x: "x = (k, md)" by (cases x)
    show ?thesis using None Cons x
      by (simp add: get_session_def Let_def evict_oldest_session_eq;
          rule session_manager.equality; simp)
  qed
qed



lemma two_sessions_eq:
  "two_sessions =
     \<lparr>manager_db_path = ''data/sessions.db'', max_sessions = 5, session_ttl = 2,
      cleanup_interval = 1,
      sessions =
        [(''user-1'', \<lparr>session = \<lparr>session_id = ''user-1'', db_path = ''data/sessions.db''\<rparr>,
                       created_at = 0, last_accessed = 0, access_count = 1\<rparr>),
         (''user-2'', \<lparr>session = \<lparr>session_id = ''user-2'', db_path = ''data/sessions.db''\<rparr>,
                       created_at = 1, last_accessed = 1, access_count = 1\<rparr>)],
      running = False, sessions_created = 2, sessions_evicted = 0, sessions_expired = 0,
      cache_hits = 0, cache_misses = 2, events = []\<rparr>"
  by (simp add: two_sessions_def get_session_eq SessionManager_def Let_def)

lemma close_events_sdk:
  "close_events sdk_handles sid md = [ClearSessionCalled sid, CloseCalled sid, LoggedClosed sid]"
  by (simp add: close_events_def close_session_def teardown_def log_event_def sdk_handles_def
      SessionManager_def Let_def)


section \<open>C7: the sweep removes exactly the expired sessions\<close>

text \<open>
  Claim C7. For every pool (a dictionary: no key twice), whatever the handles do when
  closed, and every clock reading: \<open>cleanup_expired_sessions\<close> removes exactly the entries
  whose age \<open>now - last_accessed\<close> is above \<open>session_ttl\<close>; it closes each of them, in the
  dictionary's order (\<open>close_events\<close>: the calls on the handle and the log record, a
  failure of the handle included); \<open>sessions_expired\<close> goes up by one for each; every
  other entry stays as it was and where it was; nothing else in the manager changes; and
  the number returned is the number of entries removed.
\<close>

theorem cleanup_removes_exactly_the_expired:
  assumes "distinct (map fst (sessions m))"
  shows "cleanup_expired_sessions env m now =
     (Inr (int (length (filter (\<lambda>(sid, md). age now md > session_ttl m) (sessions m)))),
      m\<lparr>sessions := filter (\<lambda>(sid, md). \<not> age now md > session_ttl m) (sessions m),
        sessions_expired := sessions_expired m +
          int (length (filter (\<lambda>(sid, md). age now md > session_ttl m) (sessions m))),
        events := events m @
          concat (map (\<lambda>(sid, md). close_events env sid md)
                    (filter (\<lambda>(sid, md). age now md > session_ttl m) (sessions m)))\<rparr>)"
  using assms by (rule cleanup_expired_sessions_eq)

text \<open>At time 2.5 \<open>user-1\<close> is 2.5 seconds old and goes, \<open>user-2\<close> is 1.5 seconds old and
  stays.\<close>

theorem cleanup_removes_exactly_the_expired_witness:
  "cleanup_expired_sessions sdk_handles two_sessions (5/2) =
     (Inr 1,
      two_sessions
        \<lparr>sessions :=
           [(''user-2'', \<lparr>session = \<lparr>session_id = ''user-2'', db_path = ''data/sessions.db''\<rparr>,
                          created_at = 1, last_accessed = 1, access_count = 1\<rparr>)],
         sessions_expired := 1,
         events := [ClearSessionCalled ''user-1'', CloseCalled ''user-1'', LoggedClosed ''user-1'']\<rparr>)"
proof -
  have d: "distinct (map fst (sessions two_sessions))"
    by (simp add: two_sessions_eq)
  show ?thesis
    using cleanup_removes_exactly_the_expired[OF d, of sdk_handles "5/2"]
    by (simp add: two_sessions_eq age_def close_events_sdk)
qed

section \<open>C9: a handle that fails to close\<close>



section \<open>Facts about the size and the order of the pool\<close>

lemma without_key_shorter:
  "k \<in> fst ` set xs \<Longrightarrow> length (without_key k xs) < length xs"
proof -
  assume "k \<in> fst ` set xs"
  then obtain v where "(k, v) \<in> set xs" by auto
  then show ?thesis
    using length_filter_less[of "(k, v)" xs "\<lambda>(k', v). k' \<noteq> k"]
    by (simp add: without_key_def)
qed

lemma without_key_length: "length (without_key k xs) \<le> length xs"
  by (simp add: without_key_def)

text \<open>A well-formed pool within its bound, for a bound of at least one.\<close>

lemma pool_step_bounded:
  assumes "distinct (map fst (sessions m))" "int (length (sessions m)) \<le> max_sessions m"
    and "1 \<le> max_sessions m"
  shows "distinct (map fst (sessions (pool_step env m x))) \<and>
         int (length (sessions (pool_step env m x))) \<le> max_sessions m \<and>
         max_sessions (pool_step env m x) = max_sessions m"
proof -
  obtain now opn where x: "x = (now, opn)" by (cases x)
  show ?thesis
  proof (cases opn)
    case (GetSession sid)
    show ?thesis
    proof (cases "map_of (sessions m) sid")
      case None
      then have notin: "sid \<notin> fst ` set (sessions m)" by (simp add: map_of_in_keys)
      show ?thesis
      proof (cases "int (length (sessions m)) \<ge> max_sessions m \<and> sessions m \<noteq> []")
        case True
        then obtain y ys where ys: "sessions m = y # ys" by (cases "sessions m") auto
        have "sid \<notin> fst ` set ys" using notin ys by auto
        then show ?thesis
          using None True assms ys x GetSession
          by (simp add: get_session_eq Let_def)
      next
        case False
        then have "int (length (sessions m)) < max_sessions m"
          using assms(3) by (cases "sessions m") auto
        then show ?thesis
          using None False assms notin x GetSession
          by (simp add: get_session_eq Let_def)
      qed
    next
      case (Some md)
      then have "sid \<in> fst ` set (sessions m)"
        using map_of_in_keys[of "sessions m" sid] by simp
      then have "length (without_key sid (sessions m)) < length (sessions m)"
        by (rule without_key_shorter)
      then show ?thesis
        using Some assms x GetSession
        by (auto simp: get_session_eq without_key_distinct without_key_keys)
    qed
  next
    case (RemoveSession sid)
    have "length (without_key sid (sessions m)) \<le> length (sessions m)"
      by (rule without_key_length)
    then show ?thesis
      using assms x RemoveSession
      by (auto simp: remove_session_eq without_key_distinct split: option.splits)
  next
    case Cleanup
    have "length (filter (\<lambda>(sid, md). \<not> age now md > session_ttl m) (sessions m)) \<le> length (sessions m)"
      by simp
    then have "int (length (filter (\<lambda>(sid, md). \<not> age now md > session_ttl m) (sessions m)))
        \<le> max_sessions m"
      using assms(2) by linarith
    then show ?thesis
      using assms x Cleanup
      by (simp add: cleanup_expired_sessions_eq distinct_map_filter)
  qed
qed

lemma pool_run_bounded:
  assumes "distinct (map fst (sessions m))" "int (length (sessions m)) \<le> max_sessions m"
    and "1 \<le> max_sessions m"
  shows "int (length (sessions (pool_run env m ops))) \<le> max_sessions m \<and>
         distinct (map fst (sessions (pool_run env m ops)))"
  using assms
proof (induction ops arbitrary: m)
  case Nil
  then show ?case by simp
next
  case (Cons x ops)
  note s = pool_step_bounded[OF Cons.prems, of env x]
  show ?case
    using Cons.IH[of "pool_step env m x"] s Cons.prems(3) by simp
qed

lemma sorted_map_filter: "sorted (map f xs) \<Longrightarrow> sorted (map f (filter P xs))"
  by (induction xs) (auto)

lemma sorted_map_tl: "sorted (map f xs) \<Longrightarrow> sorted (map f (tl xs))"
  by (cases xs) auto

text \<open>The dictionary's order is the order of last access, when the clock never goes back.\<close>

lemma pool_step_lru:
  assumes "distinct (map fst (sessions m))"
    and "sorted (map (last_accessed \<circ> snd) (sessions m))"
    and "\<forall>x\<in>set (sessions m). last_accessed (snd x) \<le> fst x'"
  shows "sorted (map (last_accessed \<circ> snd) (sessions (pool_step env m x'))) \<and>
         (\<forall>x\<in>set (sessions (pool_step env m x')). last_accessed (snd x) \<le> fst x')"
proof -
  obtain now opn where x: "x' = (now, opn)" by (cases x')
  have le: "\<forall>x\<in>set (sessions m). last_accessed (snd x) \<le> now" using assms(3) x by simp
  show ?thesis
  proof (cases opn)
    case (GetSession sid)
    show ?thesis
    proof (cases "map_of (sessions m) sid")
      case None
      let ?xs = "if int (length (sessions m)) \<ge> max_sessions m \<and> sessions m \<noteq> []
                 then tl (sessions m) else sessions m"
      have s: "sorted (map (last_accessed \<circ> snd) ?xs)"
        using assms(2) by (simp add: sorted_map_tl)
      have l: "\<forall>x\<in>set ?xs. last_accessed (snd x) \<le> now"
        using le by (auto dest: list.set_sel(2))
      show ?thesis
        using None x GetSession s l
        by (simp add: get_session_eq Let_def sorted_append)
    next
      case (Some md)
      have s: "sorted (map (last_accessed \<circ> snd) (without_key sid (sessions m)))"
        using assms(2) by (simp add: without_key_def sorted_map_filter)
      have l: "\<forall>x\<in>set (without_key sid (sessions m)). last_accessed (snd x) \<le> now"
        using le by (simp add: without_key_def)
      show ?thesis
        using Some x GetSession s l
        by (simp add: get_session_eq update_access_def sorted_append)
    qed
  next
    case (RemoveSession sid)
    have s: "sorted (map (last_accessed \<circ> snd) (without_key sid (sessions m)))"
      using assms(2) by (simp add: without_key_def sorted_map_filter)
    have l: "\<forall>x\<in>set (without_key sid (sessions m)). last_accessed (snd x) \<le> now"
      using le by (simp add: without_key_def)
    show ?thesis
      using x RemoveSession s l assms(2) le
      by (simp add: remove_session_eq split: option.splits)
  next
    case Cleanup
    show ?thesis
      using x Cleanup assms(1,2) le
      by (simp add: cleanup_expired_sessions_eq sorted_map_filter)
  qed
qed

lemma pool_run_lru:
  assumes "distinct (map fst (sessions m))" "int (length (sessions m)) \<le> max_sessions m"
    and "1 \<le> max_sessions m"
    and "sorted (map (last_accessed \<circ> snd) (sessions m))"
    and "\<forall>x\<in>set (sessions m). last_accessed (snd x) \<le> t0"
    and "nondecreasing_from t0 (map fst ops)"
  shows "sorted (map (last_accessed \<circ> snd) (sessions (pool_run env m ops)))"
  using assms
proof (induction ops arbitrary: m t0)
  case Nil
  then show ?case by simp
next
  case (Cons x ops)
  have t: "t0 \<le> fst x" and rest: "nondecreasing_from (fst x) (map fst ops)"
    using Cons.prems(6) by simp_all
  have le: "\<forall>y\<in>set (sessions m). last_accessed (snd y) \<le> fst x"
    using Cons.prems(5) t by fastforce
  note b = pool_step_bounded[OF Cons.prems(1-3), of env x]
  note l = pool_step_lru[OF Cons.prems(1) Cons.prems(4) le, of env]
  let ?m1 = "pool_step env m x"
  have d1: "distinct (map fst (sessions ?m1))" using b by simp
  have b1: "int (length (sessions ?m1)) \<le> max_sessions ?m1" using b by simp
  have o1: "1 \<le> max_sessions ?m1" using b Cons.prems(3) by simp
  have s1: "sorted (map (last_accessed \<circ> snd) (sessions ?m1))" using l by simp
  have l1: "\<forall>y\<in>set (sessions ?m1). last_accessed (snd y) \<le> fst x" using l by simp
  show ?case
    using Cons.IH[OF d1 b1 o1 s1 l1 rest] by simp
qed

lemma pool_run_snoc: "pool_run env m (xs @ [x]) = pool_step env (pool_run env m xs) x"
  by (induction xs arbitrary: m) auto

text \<open>Creating sessions for new keys while there is room.\<close>

lemma pool_run_fill:
  assumes "distinct (map fst (sessions m) @ keys)"
    and "int (length (sessions m) + length keys) \<le> max_sessions m"
    and "length stamps = length keys"
  shows "sessions (pool_run env m (zip stamps (map GetSession keys))) =
           sessions m @ map (\<lambda>(t, k). new_entry (manager_db_path m) k t) (zip stamps keys) \<and>
         sessions_evicted (pool_run env m (zip stamps (map GetSession keys))) = sessions_evicted m \<and>
         events (pool_run env m (zip stamps (map GetSession keys))) = events m \<and>
         max_sessions (pool_run env m (zip stamps (map GetSession keys))) = max_sessions m \<and>
         manager_db_path (pool_run env m (zip stamps (map GetSession keys))) = manager_db_path m"
  using assms
proof (induction keys arbitrary: m stamps)
  case Nil
  then show ?case by simp
next
  case (Cons k ks)
  obtain t ts where stamps: "stamps = t # ts" "length ts = length ks"
    using Cons.prems(3) by (cases stamps) auto
  have none: "map_of (sessions m) k = None"
    using Cons.prems(1) by (simp add: map_of_in_keys)
  have room: "\<not> max_sessions m \<le> int (length (sessions m))"
    using Cons.prems(2) by simp
  let ?m1 = "snd (get_session env m k t)"
  have m1: "sessions ?m1 = sessions m @ [new_entry (manager_db_path m) k t]"
    "sessions_evicted ?m1 = sessions_evicted m" "events ?m1 = events m"
    "max_sessions ?m1 = max_sessions m" "manager_db_path ?m1 = manager_db_path m"
    using none room by (simp_all add: get_session_eq Let_def new_entry_def)
  have d1: "distinct (map fst (sessions ?m1) @ ks)"
    using Cons.prems(1) by (auto simp: m1 new_entry_def)
  have b1: "int (length (sessions ?m1) + length ks) \<le> max_sessions ?m1"
    using Cons.prems(2) by (simp add: m1)
  show ?case
    using Cons.IH[OF d1 b1 stamps(2)] by (simp add: stamps m1)
qed

lemma fresh_pool:
  "sessions (SessionManager p M ttl ci) = []" "max_sessions (SessionManager p M ttl ci) = M"
  "sessions_evicted (SessionManager p M ttl ci) = 0" "events (SessionManager p M ttl ci) = []"
  "manager_db_path (SessionManager p M ttl ci) = p"
  by (simp_all add: SessionManager_def)

text \<open>One key more than the bound, on a fresh pool.\<close>

lemma pool_run_overflow:
  assumes "1 \<le> M" "distinct keys" "int (length keys) = M + 1" "length stamps = length keys"
  shows "sessions (pool_run env (SessionManager p M ttl ci) (zip stamps (map GetSession keys))) =
           map (\<lambda>(t, k). new_entry p k t) (tl (zip stamps keys)) \<and>
         sessions_evicted (pool_run env (SessionManager p M ttl ci) (zip stamps (map GetSession keys))) = 1 \<and>
         events (pool_run env (SessionManager p M ttl ci) (zip stamps (map GetSession keys))) =
           close_events env (hd keys) (snd (new_entry p (hd keys) (hd stamps)))"
proof -
  let ?m0 = "SessionManager p M ttl ci"
  have "keys \<noteq> []" using assms(1,3) by auto
  then obtain ks k where keys: "keys = ks @ [k]" by (cases keys rule: rev_cases) auto
  have "stamps \<noteq> []" using assms(4) \<open>keys \<noteq> []\<close> by auto
  then obtain ts t where stamps: "stamps = ts @ [t]" by (cases stamps rule: rev_cases) auto
  have len: "length ts = length ks" "int (length ks) = M"
    using assms(3,4) keys stamps by auto
  then have ne: "ks \<noteq> []" "ts \<noteq> []" using assms(1) by auto
  let ?ops = "zip ts (map GetSession ks)"
  let ?mf = "pool_run env ?m0 ?ops"
  have split: "zip stamps (map GetSession keys) = ?ops @ [(t, GetSession k)]"
    using len by (simp add: keys stamps)
  have zsplit: "zip stamps keys = zip ts ks @ [(t, k)]"
    using len by (simp add: keys stamps)
  have fill: "sessions ?mf = map (\<lambda>(t, k). new_entry p k t) (zip ts ks)"
    "sessions_evicted ?mf = 0" "events ?mf = []" "max_sessions ?mf = M" "manager_db_path ?mf = p"
    using pool_run_fill[of ?m0 ks ts env] assms(2) len keys by (simp_all add: fresh_pool)
  have zne: "zip ts ks \<noteq> []" using ne by (cases ts; cases ks) auto
  have hdz: "hd (zip ts ks) = (hd ts, hd ks)" using ne by (cases ts; cases ks) auto
  have none: "map_of (sessions ?mf) k = None"
  proof -
    have "fst ` set (sessions ?mf) \<subseteq> set ks"
      by (auto simp: fill new_entry_def dest: set_zip_rightD)
    then show ?thesis using assms(2) keys by (auto simp: map_of_in_keys)
  qed
  have full: "int (length (sessions ?mf)) \<ge> max_sessions ?mf \<and> sessions ?mf \<noteq> []"
    using len zne by (simp add: fill)
  have hd_keys: "hd keys = hd ks" "hd stamps = hd ts" using ne keys stamps by auto
  have step: "pool_run env ?m0 (zip stamps (map GetSession keys)) = snd (get_session env ?mf k t)"
    by (simp add: split pool_run_snoc)
  have hd_entry: "hd (sessions ?mf) = new_entry p (hd ks) (hd ts)"
    using zne hdz by (simp add: fill hd_map)
  have 1: "sessions (snd (get_session env ?mf k t)) = tl (sessions ?mf) @ [new_entry p k t]"
    and 2: "sessions_evicted (snd (get_session env ?mf k t)) = 1"
    and 3: "events (snd (get_session env ?mf k t)) =
        close_events env (fst (hd (sessions ?mf))) (snd (hd (sessions ?mf)))"
    using none full by (simp_all add: get_session_eq Let_def new_entry_def fill(2,3,5))
  have tl_eq: "tl (sessions ?mf) @ [new_entry p k t] =
      map (\<lambda>(t, k). new_entry p k t) (tl (zip stamps keys))"
    using zne by (simp add: fill zsplit map_tl)
  show ?thesis
    unfolding step 1 2 3 tl_eq hd_entry hd_keys
    by (simp add: new_entry_def)
qed

lemma full_pool_eviction:
  assumes "k \<notin> fst ` set (sessions m)" "int (length (sessions m)) = max_sessions m"
    and "1 \<le> max_sessions m"
  shows "sessions (snd (get_session env m k t)) =
           tl (sessions m) @ [new_entry (manager_db_path m) k t]"
    and "sessions_evicted (snd (get_session env m k t)) = sessions_evicted m + 1"
    and "events (snd (get_session env m k t)) =
           events m @ close_events env (fst (hd (sessions m))) (snd (hd (sessions m)))"
proof -
  have none: "map_of (sessions m) k = None" using assms(1) by (simp add: map_of_in_keys)
  have ne: "sessions m \<noteq> []" using assms(2,3) by auto
  have full: "max_sessions m \<le> int (length (sessions m))" using assms(2) by simp
  show "sessions (snd (get_session env m k t)) =
           tl (sessions m) @ [new_entry (manager_db_path m) k t]"
    and "sessions_evicted (snd (get_session env m k t)) = sessions_evicted m + 1"
    and "events (snd (get_session env m k t)) =
           events m @ close_events env (fst (hd (sessions m))) (snd (hd (sessions m)))"
    using none ne full by (simp_all add: get_session_eq Let_def new_entry_def)
qed

lemma pool_run_max_sessions:
  assumes "distinct (map fst (sessions m))" "int (length (sessions m)) \<le> max_sessions m"
    and "1 \<le> max_sessions m"
  shows "max_sessions (pool_run env m ops) = max_sessions m"
  using assms
proof (induction ops arbitrary: m)
  case Nil
  then show ?case by simp
next
  case (Cons x ops)
  note s = pool_step_bounded[OF Cons.prems, of env x]
  show ?case
    using Cons.IH[of "pool_step env m x"] s Cons.prems(3) by simp
qed

lemma access_updates_lru_pool:
  "pool_run sdk_handles test_pool access_updates_lru =
     test_pool
       \<lparr>sessions :=
          [(''user-2'', \<lparr>session = \<lparr>session_id = ''user-2'', db_path = ''data/sessions.db''\<rparr>,
                         created_at = 1, last_accessed = 1, access_count = 1\<rparr>),
           (''user-3'', \<lparr>session = \<lparr>session_id = ''user-3'', db_path = ''data/sessions.db''\<rparr>,
                         created_at = 2, last_accessed = 2, access_count = 1\<rparr>),
           (''user-1'', \<lparr>session = \<lparr>session_id = ''user-1'', db_path = ''data/sessions.db''\<rparr>,
                         created_at = 0, last_accessed = 3, access_count = 2\<rparr>),
           (''user-4'', \<lparr>session = \<lparr>session_id = ''user-4'', db_path = ''data/sessions.db''\<rparr>,
                         created_at = 4, last_accessed = 4, access_count = 1\<rparr>),
           (''user-5'', \<lparr>session = \<lparr>session_id = ''user-5'', db_path = ''data/sessions.db''\<rparr>,
                         created_at = 5, last_accessed = 5, access_count = 1\<rparr>)],
        sessions_created := 5, cache_hits := 1, cache_misses := 5\<rparr>"
  by (simp add: access_updates_lru_def test_pool_def get_session_eq SessionManager_def Let_def
      without_key_def update_access_def)

section \<open>C4: the pool stays within its bound and evicts the least recently used\<close>

text \<open>
  Claim C4, as stated, is about every pool with its bound \<open>M\<close>. The constructor takes any
  integer as \<open>max_sessions\<close>, and with \<open>max_sessions = 0\<close> the claim fails: on the empty pool
  \<open>len(self._sessions) >= self.max_sessions\<close> holds, \<open>_evict_oldest_session\<close> returns at
  \<open>if not self._sessions\<close>, and the new entry is stored. After \<open>get_session\<close> on \<open>M + 1 = 1\<close>
  key the pool holds one entry, above its bound of 0, nothing was evicted and no handle
  was closed.
\<close>

theorem zero_bound_pool_overfills:
  "max_sessions (pool_run sdk_handles (SessionManager ''data/sessions.db'' 0 2 1)
                   [(0, GetSession ''user-0'')]) = 0 \<and>
   length (sessions (pool_run sdk_handles (SessionManager ''data/sessions.db'' 0 2 1)
                   [(0, GetSession ''user-0'')])) = 1 \<and>
   sessions_evicted (pool_run sdk_handles (SessionManager ''data/sessions.db'' 0 2 1)
                   [(0, GetSession ''user-0'')]) = 0 \<and>
   events (pool_run sdk_handles (SessionManager ''data/sessions.db'' 0 2 1)
                   [(0, GetSession ''user-0'')]) = []"
  by (simp add: get_session_eq SessionManager_def Let_def)

text \<open>
  Claim C4, amended. For every pool created with a bound \<open>M \<ge> 1\<close>, whatever the handles
  do when closed, after any sequence of \<open>get_session\<close>, \<open>remove_session\<close> and
  \<open>cleanup_expired_sessions\<close> calls the pool holds at most \<open>M\<close> entries. When the clock
  readings of the calls never go back, the dictionary is in the order of \<open>last_accessed\<close>,
  so that its first entry is the least recently accessed one. \<open>get_session\<close> for a key that
  is not in a pool of \<open>M\<close> entries removes exactly that first entry, closes its handle
  (\<open>close_events\<close>), adds one to \<open>sessions_evicted\<close> and stores the new entry last. In
  particular \<open>get_session\<close> on \<open>M + 1\<close> distinct keys, on a new pool, leaves the entries of
  all keys but the first, \<open>M\<close> of them, with \<open>sessions_evicted = 1\<close> and the handle of the first
  key closed and no other.
\<close>

theorem pool_bounded_lru_eviction:
  assumes "1 \<le> M"
  shows "(let m = pool_run env (SessionManager p M ttl ci) ops;
              m' = snd (get_session env m k t)
          in int (length (sessions m)) \<le> M \<and>
             (nondecreasing_from t0 (map fst ops) \<longrightarrow>
                sorted (map (last_accessed \<circ> snd) (sessions m))) \<and>
             (k \<notin> fst ` set (sessions m) \<and> int (length (sessions m)) = M \<longrightarrow>
                sessions m' = tl (sessions m) @ [new_entry (manager_db_path m) k t] \<and>
                sessions_evicted m' = sessions_evicted m + 1 \<and>
                events m' =
                  events m @ close_events env (fst (hd (sessions m))) (snd (hd (sessions m))))) \<and>
         (distinct keys \<and> int (length keys) = M + 1 \<and> length stamps = length keys \<longrightarrow>
            (let m' = pool_run env (SessionManager p M ttl ci) (zip stamps (map GetSession keys))
             in sessions m' = map (\<lambda>(t, k). new_entry p k t) (tl (zip stamps keys)) \<and>
                int (length (sessions m')) = M \<and>
                sessions_evicted m' = 1 \<and>
                events m' = close_events env (hd keys) (snd (new_entry p (hd keys) (hd stamps)))))"
proof -
  let ?fresh = "SessionManager p M ttl ci"
  let ?pool = "pool_run env ?fresh ops"
  have d0: "distinct (map fst (sessions ?fresh))" by (simp add: fresh_pool)
  have b0: "int (length (sessions ?fresh)) \<le> max_sessions ?fresh" using assms by (simp add: fresh_pool)
  have o0: "1 \<le> max_sessions ?fresh" using assms by (simp add: fresh_pool)
  have bound: "int (length (sessions ?pool)) \<le> M"
    using pool_run_bounded[OF d0 b0 o0, of env ops] by (simp add: fresh_pool)
  have mx: "max_sessions ?pool = M"
    using pool_run_max_sessions[OF d0 b0 o0, of env ops] by (simp add: fresh_pool)
  have lru: "nondecreasing_from t0 (map fst ops) \<longrightarrow>
      sorted (map (last_accessed \<circ> snd) (sessions ?pool))"
  proof
    assume nd: "nondecreasing_from t0 (map fst ops)"
    have s0: "sorted (map (last_accessed \<circ> snd) (sessions ?fresh))" by (simp add: fresh_pool)
    have l0: "\<forall>x\<in>set (sessions ?fresh). last_accessed (snd x) \<le> t0" by (simp add: fresh_pool)
    show "sorted (map (last_accessed \<circ> snd) (sessions ?pool))"
      by (rule pool_run_lru[OF d0 b0 o0 s0 l0 nd])
  qed
  have evict: "k \<notin> fst ` set (sessions ?pool) \<and> int (length (sessions ?pool)) = M \<longrightarrow>
      sessions (snd (get_session env ?pool k t)) =
        tl (sessions ?pool) @ [new_entry (manager_db_path ?pool) k t] \<and>
      sessions_evicted (snd (get_session env ?pool k t)) = sessions_evicted ?pool + 1 \<and>
      events (snd (get_session env ?pool k t)) =
        events ?pool @ close_events env (fst (hd (sessions ?pool))) (snd (hd (sessions ?pool)))"
  proof
    assume a: "k \<notin> fst ` set (sessions ?pool) \<and> int (length (sessions ?pool)) = M"
    then have 1: "k \<notin> fst ` set (sessions ?pool)"
      and 2: "int (length (sessions ?pool)) = max_sessions ?pool"
      and 3: "1 \<le> max_sessions ?pool"
      using mx assms by simp_all
    show "sessions (snd (get_session env ?pool k t)) =
        tl (sessions ?pool) @ [new_entry (manager_db_path ?pool) k t] \<and>
      sessions_evicted (snd (get_session env ?pool k t)) = sessions_evicted ?pool + 1 \<and>
      events (snd (get_session env ?pool k t)) =
        events ?pool @ close_events env (fst (hd (sessions ?pool))) (snd (hd (sessions ?pool)))"
      using full_pool_eviction[OF 1 2 3, of env t] by simp
  qed
  let ?r = "pool_run env ?fresh (zip stamps (map GetSession keys))"
  have scen: "distinct keys \<and> int (length keys) = M + 1 \<and> length stamps = length keys \<longrightarrow>
      sessions ?r = map (\<lambda>(t, k). new_entry p k t) (tl (zip stamps keys)) \<and>
      int (length (sessions ?r)) = M \<and> sessions_evicted ?r = 1 \<and>
      events ?r = close_events env (hd keys) (snd (new_entry p (hd keys) (hd stamps)))"
  proof
    assume a: "distinct keys \<and> int (length keys) = M + 1 \<and> length stamps = length keys"
    then have k1: "distinct keys" and k2: "int (length keys) = M + 1"
      and k3: "length stamps = length keys" by simp_all
    note ov = pool_run_overflow[OF assms k1 k2 k3, of env p ttl ci]
    have lz: "length (tl (zip stamps keys)) = length keys - 1" using k3 by simp
    have lk: "int (length keys - 1) = M" using k2 assms by linarith
    have len: "int (length (sessions ?r)) = M"
      using ov lk by (simp only: length_map lz)
    show "sessions ?r = map (\<lambda>(t, k). new_entry p k t) (tl (zip stamps keys)) \<and>
      int (length (sessions ?r)) = M \<and> sessions_evicted ?r = 1 \<and>
      events ?r = close_events env (hd keys) (snd (new_entry p (hd keys) (hd stamps)))"
      using ov len by simp
  qed
  show ?thesis
    unfolding Let_def using bound lru evict scen by blast
qed

text \<open>The two unit tests of the eviction, with a bound of 5: after \<open>user-1\<close>, \<open>user-2\<close>,
  \<open>user-3\<close>, \<open>user-1\<close> again, \<open>user-4\<close> and \<open>user-5\<close>, the key \<open>user-6\<close> evicts \<open>user-2\<close>; and
  after \<open>user-0\<close> to \<open>user-4\<close>, the key \<open>user-new\<close> evicts \<open>user-0\<close>.\<close>

theorem pool_bounded_lru_eviction_witness:
  "(1::int) \<le> 5 \<and>
   nondecreasing_from 0 (map fst access_updates_lru) \<and>
   distinct lru_eviction_keys \<and>
   map fst (sessions (pool_run sdk_handles test_pool access_updates_lru)) =
     [''user-2'', ''user-3'', ''user-1'', ''user-4'', ''user-5''] \<and>
   map (last_accessed \<circ> snd) (sessions (pool_run sdk_handles test_pool access_updates_lru)) =
     [1, 2, 3, 4, 5] \<and>
   map fst (sessions (snd (get_session sdk_handles
       (pool_run sdk_handles test_pool access_updates_lru) ''user-6'' 6))) =
     [''user-3'', ''user-1'', ''user-4'', ''user-5'', ''user-6''] \<and>
   sessions_evicted (snd (get_session sdk_handles
       (pool_run sdk_handles test_pool access_updates_lru) ''user-6'' 6)) = 1 \<and>
   events (snd (get_session sdk_handles
       (pool_run sdk_handles test_pool access_updates_lru) ''user-6'' 6)) =
     [ClearSessionCalled ''user-2'', CloseCalled ''user-2'', LoggedClosed ''user-2''] \<and>
   map fst (sessions (pool_run sdk_handles test_pool
       (zip [0, 1, 2, 3, 4, 5] (map GetSession lru_eviction_keys)))) =
     [''user-1'', ''user-2'', ''user-3'', ''user-4'', ''user-new''] \<and>
   sessions_evicted (pool_run sdk_handles test_pool
       (zip [0, 1, 2, 3, 4, 5] (map GetSession lru_eviction_keys))) = 1 \<and>
   events (pool_run sdk_handles test_pool
       (zip [0, 1, 2, 3, 4, 5] (map GetSession lru_eviction_keys))) =
     [ClearSessionCalled ''user-0'', CloseCalled ''user-0'', LoggedClosed ''user-0'']"
proof -
  let ?m = "pool_run sdk_handles test_pool access_updates_lru"
  let ?m' = "snd (get_session sdk_handles ?m ''user-6'' 6)"
  let ?r = "pool_run sdk_handles test_pool (zip [0, 1, 2, 3, 4, 5] (map GetSession lru_eviction_keys))"
  have one: "(1::int) \<le> 5" by simp
  have nd: "nondecreasing_from 0 (map fst access_updates_lru)"
    by (simp add: access_updates_lru_def)
  have dk: "distinct lru_eviction_keys" by (simp add: lru_eviction_keys_def)
  have lk: "int (length lru_eviction_keys) = 5 + 1"
    "length [0::real, 1, 2, 3, 4, 5] = length lru_eviction_keys"
    by (simp_all add: lru_eviction_keys_def)
  have fresh: "''user-6'' \<notin> fst ` set (sessions ?m)" "int (length (sessions ?m)) = 5"
    by (simp_all add: access_updates_lru_pool)
  note T = pool_bounded_lru_eviction[OF one, of sdk_handles "''data/sessions.db''" 2 1
        access_updates_lru "''user-6''" 6 0 lru_eviction_keys "[0, 1, 2, 3, 4, 5]",
        unfolded Let_def, folded test_pool_def]
  have ev: "sessions ?m' = tl (sessions ?m) @ [new_entry (manager_db_path ?m) ''user-6'' 6]"
    "sessions_evicted ?m' = sessions_evicted ?m + 1"
    "events ?m' = events ?m @ close_events sdk_handles (fst (hd (sessions ?m))) (snd (hd (sessions ?m)))"
    using T fresh by blast+
  have sc: "sessions ?r =
      map (\<lambda>(t, k). new_entry ''data/sessions.db'' k t) (tl (zip [0, 1, 2, 3, 4, 5] lru_eviction_keys))"
    "sessions_evicted ?r = 1"
    "events ?r = close_events sdk_handles (hd lru_eviction_keys)
        (snd (new_entry ''data/sessions.db'' (hd lru_eviction_keys) (hd [0, 1, 2, 3, 4, 5])))"
    using T dk lk by blast+
  have 1: "map fst (sessions ?m) = [''user-2'', ''user-3'', ''user-1'', ''user-4'', ''user-5'']"
    and 2: "map (last_accessed \<circ> snd) (sessions ?m) = [1, 2, 3, 4, 5]"
    by (simp_all add: access_updates_lru_pool)
  have tp: "manager_db_path test_pool = ''data/sessions.db''" "sessions_evicted test_pool = 0"
    "events test_pool = []"
    by (simp_all add: test_pool_def SessionManager_def)
  have 3: "map fst (sessions ?m') = [''user-3'', ''user-1'', ''user-4'', ''user-5'', ''user-6'']"
    and 4: "sessions_evicted ?m' = 1"
    and 5: "events ?m' = [ClearSessionCalled ''user-2'', CloseCalled ''user-2'', LoggedClosed ''user-2'']"
    unfolding ev
    by (simp_all add: access_updates_lru_pool close_events_sdk new_entry_def tp)
  have 6: "map fst (sessions ?r) = [''user-1'', ''user-2'', ''user-3'', ''user-4'', ''user-new'']"
    and 7: "sessions_evicted ?r = 1"
    and 8: "events ?r = [ClearSessionCalled ''user-0'', CloseCalled ''user-0'', LoggedClosed ''user-0'']"
    unfolding sc
    by (simp_all add: close_events_sdk new_entry_def lru_eviction_keys_def)
  show ?thesis
    using one nd dk 1 2 3 4 5 6 7 8 by blast
qed

section \<open>Facts about the circuit breaker\<close>

lemma counted_eq:
  "counted operation (n, w) = (fst (operation w), Suc n, snd (operation w))"
  by (simp add: counted_def split: prod.splits)

lemma fails_counted: "fails operation \<Longrightarrow> fails (counted operation)"
  unfolding fails_def
proof
  fix nw :: "nat \<times> 'a"
  assume f: "\<forall>w. isl (fst (operation w))"
  obtain n w where nw: "nw = (n, w)" by (cases nw)
  have "isl (fst (operation w))" using f by simp
  then show "isl (fst (counted operation nw))" by (simp add: nw counted_eq)
qed








section \<open>C1: the breaker opens at the threshold and then fails fast\<close>



end
